theory Spec2Isabelle
  imports Main "HOL-Library.AList" "HOL-Library.Sublist"
begin

section \<open>Strings, JSON values and errors\<close>

text \<open>
  JavaScript strings are modelled as \<open>string\<close>. \<open>indexOf\<close> is
  \<^verbatim>\<open>String.prototype.indexOf\<close>: the position of the first occurrence of the
  search string, or \<open>-1\<close>.
\<close>

fun indexOf :: "string \<Rightarrow> string \<Rightarrow> int" where
  "indexOf [] sub = (if sub = [] then 0 else - 1)"
| "indexOf (c # cs) sub =
     (if prefix sub (c # cs) then 0
      else (let r = indexOf cs sub in if r = - 1 then - 1 else r + 1))"

text \<open>\<^verbatim>\<open>str.split(sep)\<close> for a one-character separator.\<close>

fun split_on :: "char \<Rightarrow> string \<Rightarrow> string list" where
  "split_on sep [] = [[]]"
| "split_on sep (c # cs) =
     (if c = sep then [] # split_on sep cs
      else (case split_on sep cs of
              [] \<Rightarrow> [[c]]
            | piece # pieces \<Rightarrow> (c # piece) # pieces))"

text \<open>
  The text a replacement string stands for at one match (\<open>GetSubstitution\<close> of
  ECMAScript, for a pattern without capture groups): \<^verbatim>\<open>$$\<close> is a dollar sign,
  \<^verbatim>\<open>$&\<close> the matched text, \<^verbatim>\<open>$`\<close> the text before the match, \<^verbatim>\<open>$'\<close> the
  text after it; every other character, a dollar sign followed by anything else
  included, stands for itself.
\<close>

fun getSubstitution :: "string \<Rightarrow> string \<Rightarrow> string \<Rightarrow> string \<Rightarrow> string" where
  "getSubstitution matched before after [] = []"
| "getSubstitution matched before after [c] = [c]"
| "getSubstitution matched before after (c # d # rest) =
     (if c = CHR ''$'' \<and> d = CHR ''$''
      then CHR ''$'' # getSubstitution matched before after rest
      else if c = CHR ''$'' \<and> d = CHR ''&''
      then matched @ getSubstitution matched before after rest
      else if c = CHR ''$'' \<and> d = CHR 0x60
      then before @ getSubstitution matched before after rest
      else if c = CHR ''$'' \<and> d = CHR 0x27
      then after @ getSubstitution matched before after rest
      else c # getSubstitution matched before after (d # rest))"

text \<open>
  \<^verbatim>\<open>str.replace(pattern, replacement)\<close> with a string pattern: only the first
  occurrence is replaced. \<open>before\<close> is the text already passed over.
\<close>

fun replace_first_from :: "string \<Rightarrow> string \<Rightarrow> string \<Rightarrow> string \<Rightarrow> string" where
  "replace_first_from before [] pat rep =
     (if pat = [] then getSubstitution [] before [] rep else [])"
| "replace_first_from before (c # cs) pat rep =
     (if prefix pat (c # cs)
      then getSubstitution pat before (drop (length pat) (c # cs)) rep
           @ drop (length pat) (c # cs)
      else c # replace_first_from (before @ [c]) cs pat rep)"

definition replace_first :: "string \<Rightarrow> string \<Rightarrow> string \<Rightarrow> string" where
  "replace_first str pat rep = replace_first_from [] str pat rep"

text \<open>
  Modelled from the spec: \<open>StringUtils\<close> is not under src/. \<open>isEmpty\<close> is the test
  behind "return absent if empty/missing" (a missing item is \<open>None\<close>), and
  \<open>startsWith\<close> is the "key-prefix test".
\<close>

definition isEmpty :: "string option \<Rightarrow> bool" where
  "isEmpty str = (case str of None \<Rightarrow> True | Some s \<Rightarrow> s = [])"

definition startsWith :: "string \<Rightarrow> string \<Rightarrow> bool" where
  "startsWith str search = prefix search str"

text \<open>
  The values \<^verbatim>\<open>JSON.parse\<close> returns. The payload of a number is never inspected by
  the cache manager. Cache entities are JavaScript objects and are values of this type
  too.
\<close>

datatype json =
    JNull
  | JBool bool
  | JNumber int
  | JString string
  | JArray "json list"
  | JObject "(string \<times> json) list"

fun truthy :: "json \<Rightarrow> bool" where
  "truthy JNull = False"
| "truthy (JBool b) = b"
| "truthy (JNumber n) = (n \<noteq> 0)"
| "truthy (JString s) = (s \<noteq> [])"
| "truthy (JArray xs) = True"
| "truthy (JObject ps) = True"

fun typeof :: "json \<Rightarrow> string" where
  "typeof JNull = ''object''"
| "typeof (JBool b) = ''boolean''"
| "typeof (JNumber n) = ''number''"
| "typeof (JString s) = ''string''"
| "typeof (JArray xs) = ''object''"
| "typeof (JObject ps) = ''object''"

datatype error =
    URIError
  | InvalidStateError
  | UntrustedAuthorityError
  | EndpointDiscoveryIncompleteError
  | UrlError
  | NetworkError
  | TypeError

section \<open>The storage adapter and the browser's cookies\<close>

text \<open>
  Modelled from the spec: the classes \<open>BrowserStorage\<close> and \<open>MemoryStorage\<close> behind
  \<open>IWindowStorage\<close> are not under src/. The StorageAdapter capability is
  \<open>get(key) -> text|absent\<close>, \<open>set(key, text)\<close>, \<open>remove(key)\<close>,
  \<open>contains(key) -> bool\<close>, \<open>keys() -> sequence<string>\<close>: a key/value store,
  here an association list in insertion order.
\<close>

type_synonym storage = "(string \<times> string) list"

definition storage_getItem :: "storage \<Rightarrow> string \<Rightarrow> string option" where
  "storage_getItem s key = map_of s key"

definition storage_setItem :: "storage \<Rightarrow> string \<Rightarrow> string \<Rightarrow> storage" where
  "storage_setItem s key v = AList.update key v s"

definition storage_removeItem :: "storage \<Rightarrow> string \<Rightarrow> storage" where
  "storage_removeItem s key = AList.delete key s"

definition storage_getKeys :: "storage \<Rightarrow> string list" where
  "storage_getKeys s = map fst s"

definition storage_containsKey :: "storage \<Rightarrow> string \<Rightarrow> bool" where
  "storage_containsKey s key = (key \<in> set (map fst s))"

text \<open>
  The state a \<open>BrowserCacheManager\<close> works on: its window storage and the page's
  \<^verbatim>\<open>document.cookie\<close> string.
\<close>

record cache_state =
  browserStorage :: storage
  document_cookie :: string

text \<open>
  Everything the class uses and src/ does not hold is a field of the environment:
  \<^item> the platform: \<^verbatim>\<open>JSON.parse\<close> (\<open>None\<close> when it throws),
    \<^verbatim>\<open>JSON.stringify\<close>, \<^verbatim>\<open>encodeURIComponent\<close>, \<^verbatim>\<open>decodeURIComponent\<close>
    (\<open>None\<close> when it throws), the effect of an assignment to
    \<^verbatim>\<open>document.cookie\<close> on the cookie string, the clock and
    \<^verbatim>\<open>Date.toUTCString\<close>;
  \<^item> the imports from msal-common: the constants, \<open>ProtocolUtils.parseRequestState\<close>
    (reduced to the \<open>libraryState.id\<close> it returns, or the error it throws),
    \<open>CacheManager.toObject\<close> and the validation predicate of each entity class (the
    value returned, or the error thrown), the constructor and the key generator of each
    entity class, and the inherited \<open>removeAllAccounts\<close> and \<open>removeAppMetadata\<close>;
  \<^item> the configuration of the instance: \<open>clientId\<close> and
    \<open>cacheConfig.storeAuthStateInCookie\<close>.
\<close>

record env =
  JSON_parse :: "string \<Rightarrow> json option"
  JSON_stringify :: "json \<Rightarrow> string"
  encodeURIComponent :: "string \<Rightarrow> string"
  decodeURIComponent :: "string \<Rightarrow> string option"
  cookie_assign :: "string \<Rightarrow> string \<Rightarrow> string"
  date_now :: int
  toUTCString :: "int \<Rightarrow> string"
  CACHE_PREFIX :: string
  ADAL_ID_TOKEN :: string
  parseRequestState :: "string \<Rightarrow> error + string"
  toObject :: "json \<Rightarrow> json option \<Rightarrow> error + json"
  new_AccountEntity :: json
  isAccountEntity :: "json \<Rightarrow> error + bool"
  generateAccountKey :: "json \<Rightarrow> string"
  new_IdTokenEntity :: json
  isIdTokenEntity :: "json \<Rightarrow> error + bool"
  new_AccessTokenEntity :: json
  isAccessTokenEntity :: "json \<Rightarrow> error + bool"
  new_RefreshTokenEntity :: json
  isRefreshTokenEntity :: "json \<Rightarrow> error + bool"
  generateCredentialKey :: "json \<Rightarrow> string"
  new_AppMetadataEntity :: json
  isAppMetadataEntity :: "string \<Rightarrow> json \<Rightarrow> error + bool"
  generateAppMetadataKey :: "json \<Rightarrow> string"
  new_ServerTelemetryEntity :: json
  isServerTelemetryEntity :: "string \<Rightarrow> json \<Rightarrow> error + bool"
  new_ThrottlingEntity :: json
  isThrottlingEntity :: "string \<Rightarrow> json \<Rightarrow> error + bool"
  removeAllAccounts :: "cache_state \<Rightarrow> cache_state"
  removeAppMetadata :: "cache_state \<Rightarrow> cache_state"
  clientId :: string
  storeAuthStateInCookie :: bool

text \<open>The members of \<open>TemporaryCacheKeys\<close> (BrowserConstants.ts) the class uses.\<close>

definition AUTHORITY :: string where "AUTHORITY = ''authority''"
definition REQUEST_STATE :: string where "REQUEST_STATE = ''request.state''"
definition NONCE_IDTOKEN :: string where "NONCE_IDTOKEN = ''nonce.id_token''"
definition ORIGIN_URI :: string where "ORIGIN_URI = ''request.origin''"
definition URL_HASH :: string where "URL_HASH = ''urlHash''"
definition REQUEST_PARAMS :: string where "REQUEST_PARAMS = ''request.params''"
definition INTERACTION_STATUS_KEY :: string where
  "INTERACTION_STATUS_KEY = ''interaction.status''"

section \<open>BrowserCacheManager\<close>

subsection \<open>Parsing and raw items\<close>

definition validateAndParseJson :: "env \<Rightarrow> string \<Rightarrow> json option" where
  "validateAndParseJson E jsonValue =
     (case JSON_parse E jsonValue of
        None \<Rightarrow> None
      | Some parsedJson \<Rightarrow>
          if truthy parsedJson \<and> typeof parsedJson = ''object''
          then Some parsedJson else None)"

definition getItem :: "cache_state \<Rightarrow> string \<Rightarrow> string option" where
  "getItem st key = storage_getItem (browserStorage st) key"

definition setItem :: "cache_state \<Rightarrow> string \<Rightarrow> string \<Rightarrow> cache_state" where
  "setItem st key v = st\<lparr>browserStorage := storage_setItem (browserStorage st) key v\<rparr>"

definition containsKey :: "cache_state \<Rightarrow> string \<Rightarrow> bool" where
  "containsKey st key = storage_containsKey (browserStorage st) key"

definition getKeys :: "cache_state \<Rightarrow> string list" where
  "getKeys st = storage_getKeys (browserStorage st)"

subsection \<open>Cache keys\<close>

definition generateCacheKey :: "env \<Rightarrow> string \<Rightarrow> string" where
  "generateCacheKey E key =
     (case validateAndParseJson E key of
        None \<Rightarrow>
          if startsWith key (CACHE_PREFIX E) \<or> startsWith key (ADAL_ID_TOKEN E)
          then key
          else CACHE_PREFIX E @ ''.'' @ clientId E @ ''.'' @ key
      | Some generatedKey \<Rightarrow> JSON_stringify E (JString key))"

definition generateAuthorityKey :: "env \<Rightarrow> string \<Rightarrow> error + string" where
  "generateAuthorityKey E stateString =
     (case parseRequestState E stateString of
        Inl e \<Rightarrow> Inl e
      | Inr stateId \<Rightarrow> Inr (generateCacheKey E (AUTHORITY @ ''.'' @ stateId)))"

definition generateNonceKey :: "env \<Rightarrow> string \<Rightarrow> error + string" where
  "generateNonceKey E stateString =
     (case parseRequestState E stateString of
        Inl e \<Rightarrow> Inl e
      | Inr stateId \<Rightarrow> Inr (generateCacheKey E (NONCE_IDTOKEN @ ''.'' @ stateId)))"

definition generateStateKey :: "env \<Rightarrow> string \<Rightarrow> error + string" where
  "generateStateKey E stateString =
     (case parseRequestState E stateString of
        Inl e \<Rightarrow> Inl e
      | Inr stateId \<Rightarrow> Inr (generateCacheKey E (REQUEST_STATE @ ''.'' @ stateId)))"

subsection \<open>Cookies\<close>

definition COOKIE_LIFE_MULTIPLIER :: int where
  "COOKIE_LIFE_MULTIPLIER = 24 * 60 * 60 * 1000"

definition getCookieExpirationTime :: "env \<Rightarrow> int \<Rightarrow> string" where
  "getCookieExpirationTime E cookieLifeDays =
     toUTCString E (date_now E + cookieLifeDays * COOKIE_LIFE_MULTIPLIER)"

text \<open>The optional \<open>expires\<close> is \<open>None\<close> when the caller leaves it out; \<open>0\<close> is falsy.\<close>

definition setItemCookie ::
  "env \<Rightarrow> cache_state \<Rightarrow> string \<Rightarrow> string \<Rightarrow> int option \<Rightarrow> cache_state" where
  "setItemCookie E st cookieName cookieValue expires =
     (let cookieStr = encodeURIComponent E cookieName @ ''='' @
                      encodeURIComponent E cookieValue @ '';path=/;'';
          cookieStr' = (case expires of
                          None \<Rightarrow> cookieStr
                        | Some days \<Rightarrow>
                            if days \<noteq> 0
                            then cookieStr @ ''expires='' @ getCookieExpirationTime E days @ '';''
                            else cookieStr)
      in st\<lparr>document_cookie := cookie_assign E (document_cookie st) cookieStr'\<rparr>)"

text \<open>The \<open>for\<close> loop of \<open>getItemCookie\<close> over the pieces of the cookie string.\<close>

fun getItemCookie_loop :: "env \<Rightarrow> string \<Rightarrow> string list \<Rightarrow> error + string" where
  "getItemCookie_loop E name [] = Inr []"
| "getItemCookie_loop E name (piece # cookieList) =
     (let cookie = dropWhile (\<lambda>c. c = CHR '' '') piece in
      if indexOf cookie name = 0
      then (case decodeURIComponent E (drop (length name) cookie) of
              None \<Rightarrow> Inl URIError
            | Some v \<Rightarrow> Inr v)
      else getItemCookie_loop E name cookieList)"

definition getItemCookie :: "env \<Rightarrow> cache_state \<Rightarrow> string \<Rightarrow> error + string" where
  "getItemCookie E st cookieName =
     getItemCookie_loop E (encodeURIComponent E cookieName @ ''='')
       (split_on (CHR '';'') (document_cookie st))"

definition clearItemCookie :: "env \<Rightarrow> cache_state \<Rightarrow> string \<Rightarrow> cache_state" where
  "clearItemCookie E st cookieName = setItemCookie E st cookieName [] (Some (- 1))"

subsection \<open>The seven entity kinds\<close>

text \<open>
  A read returns \<open>Inr None\<close> for the source's \<open>null\<close>, \<open>Inr (Some entity)\<close> for an
  entity, and \<open>Inl err\<close> when it throws. \<open>validateAndParseJson\<close> catches what
  \<^verbatim>\<open>JSON.parse\<close> throws; nothing catches what \<open>toObject\<close> or the validation
  predicate throws. No read tests the parse result for \<open>null\<close>: it is passed on to
  \<open>toObject\<close> as it is.
\<close>

definition getAccount ::
  "env \<Rightarrow> cache_state \<Rightarrow> string \<Rightarrow> error + json option" where
  "getAccount E st accountKey =
     (case getItem st accountKey of
        None \<Rightarrow> Inr None
      | Some v \<Rightarrow>
          if isEmpty (Some v) then Inr None
          else (let parsed = validateAndParseJson E v in
                case toObject E (new_AccountEntity E) parsed of
                  Inl err \<Rightarrow> Inl err
                | Inr entity \<Rightarrow>
                    (case isAccountEntity E entity of
                       Inl err \<Rightarrow> Inl err
                     | Inr accepted \<Rightarrow> if accepted then Inr (Some entity) else Inr None)))"

definition getIdTokenCredential ::
  "env \<Rightarrow> cache_state \<Rightarrow> string \<Rightarrow> error + json option" where
  "getIdTokenCredential E st idTokenKey =
     (case getItem st idTokenKey of
        None \<Rightarrow> Inr None
      | Some v \<Rightarrow>
          if isEmpty (Some v) then Inr None
          else (let parsed = validateAndParseJson E v in
                case toObject E (new_IdTokenEntity E) parsed of
                  Inl err \<Rightarrow> Inl err
                | Inr entity \<Rightarrow>
                    (case isIdTokenEntity E entity of
                       Inl err \<Rightarrow> Inl err
                     | Inr accepted \<Rightarrow> if accepted then Inr (Some entity) else Inr None)))"

definition getAccessTokenCredential ::
  "env \<Rightarrow> cache_state \<Rightarrow> string \<Rightarrow> error + json option" where
  "getAccessTokenCredential E st accessTokenKey =
     (case getItem st accessTokenKey of
        None \<Rightarrow> Inr None
      | Some v \<Rightarrow>
          if isEmpty (Some v) then Inr None
          else (let parsed = validateAndParseJson E v in
                case toObject E (new_AccessTokenEntity E) parsed of
                  Inl err \<Rightarrow> Inl err
                | Inr entity \<Rightarrow>
                    (case isAccessTokenEntity E entity of
                       Inl err \<Rightarrow> Inl err
                     | Inr accepted \<Rightarrow> if accepted then Inr (Some entity) else Inr None)))"

definition getRefreshTokenCredential ::
  "env \<Rightarrow> cache_state \<Rightarrow> string \<Rightarrow> error + json option" where
  "getRefreshTokenCredential E st refreshTokenKey =
     (case getItem st refreshTokenKey of
        None \<Rightarrow> Inr None
      | Some v \<Rightarrow>
          if isEmpty (Some v) then Inr None
          else (let parsed = validateAndParseJson E v in
                case toObject E (new_RefreshTokenEntity E) parsed of
                  Inl err \<Rightarrow> Inl err
                | Inr entity \<Rightarrow>
                    (case isRefreshTokenEntity E entity of
                       Inl err \<Rightarrow> Inl err
                     | Inr accepted \<Rightarrow> if accepted then Inr (Some entity) else Inr None)))"

definition getAppMetadata ::
  "env \<Rightarrow> cache_state \<Rightarrow> string \<Rightarrow> error + json option" where
  "getAppMetadata E st appMetadataKey =
     (case getItem st appMetadataKey of
        None \<Rightarrow> Inr None
      | Some v \<Rightarrow>
          if isEmpty (Some v) then Inr None
          else (let parsed = validateAndParseJson E v in
                case toObject E (new_AppMetadataEntity E) parsed of
                  Inl err \<Rightarrow> Inl err
                | Inr entity \<Rightarrow>
                    (case isAppMetadataEntity E appMetadataKey entity of
                       Inl err \<Rightarrow> Inl err
                     | Inr accepted \<Rightarrow> if accepted then Inr (Some entity) else Inr None)))"

definition getServerTelemetry ::
  "env \<Rightarrow> cache_state \<Rightarrow> string \<Rightarrow> error + json option" where
  "getServerTelemetry E st serverTelemetryKey =
     (case getItem st serverTelemetryKey of
        None \<Rightarrow> Inr None
      | Some v \<Rightarrow>
          if isEmpty (Some v) then Inr None
          else (let parsed = validateAndParseJson E v in
                case toObject E (new_ServerTelemetryEntity E) parsed of
                  Inl err \<Rightarrow> Inl err
                | Inr entity \<Rightarrow>
                    (case isServerTelemetryEntity E serverTelemetryKey entity of
                       Inl err \<Rightarrow> Inl err
                     | Inr accepted \<Rightarrow> if accepted then Inr (Some entity) else Inr None)))"

definition getThrottlingCache ::
  "env \<Rightarrow> cache_state \<Rightarrow> string \<Rightarrow> error + json option" where
  "getThrottlingCache E st throttlingCacheKey =
     (case getItem st throttlingCacheKey of
        None \<Rightarrow> Inr None
      | Some v \<Rightarrow>
          if isEmpty (Some v) then Inr None
          else (let parsed = validateAndParseJson E v in
                case toObject E (new_ThrottlingEntity E) parsed of
                  Inl err \<Rightarrow> Inl err
                | Inr entity \<Rightarrow>
                    (case isThrottlingEntity E throttlingCacheKey entity of
                       Inl err \<Rightarrow> Inl err
                     | Inr accepted \<Rightarrow> if accepted then Inr (Some entity) else Inr None)))"

definition setAccount :: "env \<Rightarrow> cache_state \<Rightarrow> json \<Rightarrow> cache_state" where
  "setAccount E st account =
     (let key = generateAccountKey E account
      in setItem st key (JSON_stringify E account))"

definition setIdTokenCredential :: "env \<Rightarrow> cache_state \<Rightarrow> json \<Rightarrow> cache_state" where
  "setIdTokenCredential E st idToken =
     (let idTokenKey = generateCredentialKey E idToken
      in setItem st idTokenKey (JSON_stringify E idToken))"

definition setAccessTokenCredential :: "env \<Rightarrow> cache_state \<Rightarrow> json \<Rightarrow> cache_state" where
  "setAccessTokenCredential E st accessToken =
     (let accessTokenKey = generateCredentialKey E accessToken
      in setItem st accessTokenKey (JSON_stringify E accessToken))"

definition setRefreshTokenCredential :: "env \<Rightarrow> cache_state \<Rightarrow> json \<Rightarrow> cache_state" where
  "setRefreshTokenCredential E st refreshToken =
     (let refreshTokenKey = generateCredentialKey E refreshToken
      in setItem st refreshTokenKey (JSON_stringify E refreshToken))"

definition setAppMetadata :: "env \<Rightarrow> cache_state \<Rightarrow> json \<Rightarrow> cache_state" where
  "setAppMetadata E st appMetadata =
     (let appMetadataKey = generateAppMetadataKey E appMetadata
      in setItem st appMetadataKey (JSON_stringify E appMetadata))"

definition setServerTelemetry ::
  "env \<Rightarrow> cache_state \<Rightarrow> string \<Rightarrow> json \<Rightarrow> cache_state" where
  "setServerTelemetry E st serverTelemetryKey serverTelemetry =
     setItem st serverTelemetryKey (JSON_stringify E serverTelemetry)"

definition setThrottlingCache ::
  "env \<Rightarrow> cache_state \<Rightarrow> string \<Rightarrow> json \<Rightarrow> cache_state" where
  "setThrottlingCache E st throttlingCacheKey throttlingCache =
     setItem st throttlingCacheKey (JSON_stringify E throttlingCache)"

subsection \<open>Temporary items\<close>

text \<open>The optional \<open>generateKey\<close> is \<open>False\<close> when the caller leaves it out.\<close>

definition getTemporaryCache ::
  "env \<Rightarrow> cache_state \<Rightarrow> string \<Rightarrow> bool \<Rightarrow> error + string option" where
  "getTemporaryCache E st cacheKey generateKey =
     (let key = (if generateKey then generateCacheKey E cacheKey else cacheKey);
          fromStorage = (let v = getItem st key in if isEmpty v then None else v)
      in if storeAuthStateInCookie E
         then (case getItemCookie E st key of
                 Inl e \<Rightarrow> Inl e
               | Inr itemCookie \<Rightarrow>
                   if itemCookie \<noteq> [] then Inr (Some itemCookie) else Inr fromStorage)
         else Inr fromStorage)"

definition setTemporaryCache ::
  "env \<Rightarrow> cache_state \<Rightarrow> string \<Rightarrow> string \<Rightarrow> bool \<Rightarrow> cache_state" where
  "setTemporaryCache E st cacheKey v generateKey =
     (let key = (if generateKey then generateCacheKey E cacheKey else cacheKey);
          st' = setItem st key v
      in if storeAuthStateInCookie E then setItemCookie E st' key v None else st')"

definition removeItem :: "env \<Rightarrow> cache_state \<Rightarrow> string \<Rightarrow> cache_state" where
  "removeItem E st key =
     (let st' = st\<lparr>browserStorage := storage_removeItem (browserStorage st) key\<rparr>
      in if storeAuthStateInCookie E then clearItemCookie E st' key else st')"

text \<open>
  \<open>clear\<close>: the two inherited removals, then the \<open>forEach\<close> over the keys the storage
  held when the loop started.
\<close>

definition clear_step :: "env \<Rightarrow> cache_state \<Rightarrow> string \<Rightarrow> cache_state" where
  "clear_step E st cacheKey =
     (if storage_containsKey (browserStorage st) cacheKey \<and>
         (indexOf cacheKey (CACHE_PREFIX E) \<noteq> - 1 \<or> indexOf cacheKey (clientId E) \<noteq> - 1)
      then removeItem E st cacheKey else st)"

definition clear :: "env \<Rightarrow> cache_state \<Rightarrow> cache_state" where
  "clear E st =
     (let st1 = removeAllAccounts E st;
          st2 = removeAppMetadata E st1
      in foldl (clear_step E) st2 (storage_getKeys (browserStorage st2)))"

subsection \<open>The request cache\<close>

text \<open>
  The functions below can throw after they have written: they return the error, if any,
  with the state reached.
\<close>

definition setAuthorityCache ::
  "env \<Rightarrow> cache_state \<Rightarrow> string \<Rightarrow> string \<Rightarrow> error option \<times> cache_state" where
  "setAuthorityCache E st authority state =
     (case generateAuthorityKey E state of
        Inl e \<Rightarrow> (Some e, st)
      | Inr authorityCacheKey \<Rightarrow> (None, setItem st authorityCacheKey authority))"

definition updateCacheEntries ::
  "env \<Rightarrow> cache_state \<Rightarrow> string \<Rightarrow> string \<Rightarrow> string \<Rightarrow> error option \<times> cache_state" where
  "updateCacheEntries E st state nonce authorityInstance =
     (case generateStateKey E state of
        Inl e \<Rightarrow> (Some e, st)
      | Inr stateCacheKey \<Rightarrow>
          (let st1 = setTemporaryCache E st stateCacheKey state False in
           case generateNonceKey E state of
             Inl e \<Rightarrow> (Some e, st1)
           | Inr nonceCacheKey \<Rightarrow>
               (let st2 = setTemporaryCache E st1 nonceCacheKey nonce False
                in setAuthorityCache E st2 authorityInstance state)))"

definition reset_step :: "env \<Rightarrow> string \<Rightarrow> cache_state \<Rightarrow> string \<Rightarrow> cache_state" where
  "reset_step E state st key =
     (if \<not> isEmpty (Some state) \<and> indexOf key state \<noteq> - 1
      then removeItem E st key else st)"

definition remove_generic_items :: "env \<Rightarrow> cache_state \<Rightarrow> cache_state" where
  "remove_generic_items E st =
     (let st1 = removeItem E st (generateCacheKey E REQUEST_PARAMS);
          st2 = removeItem E st1 (generateCacheKey E ORIGIN_URI);
          st3 = removeItem E st2 (generateCacheKey E URL_HASH)
      in removeItem E st3 (generateCacheKey E INTERACTION_STATUS_KEY))"

definition resetRequestCache ::
  "env \<Rightarrow> cache_state \<Rightarrow> string \<Rightarrow> error option \<times> cache_state" where
  "resetRequestCache E st state =
     (let st0 = foldl (reset_step E state) st (getKeys st) in
      if state \<noteq> []
      then (case generateStateKey E state of
              Inl e \<Rightarrow> (Some e, st0)
            | Inr stateKey \<Rightarrow>
                (let st1 = removeItem E st0 stateKey in
                 case generateNonceKey E state of
                   Inl e \<Rightarrow> (Some e, st1)
                 | Inr nonceKey \<Rightarrow>
                     (let st2 = removeItem E st1 nonceKey in
                      case generateAuthorityKey E state of
                        Inl e \<Rightarrow> (Some e, st2)
                      | Inr authorityKey \<Rightarrow>
                          (None, remove_generic_items E (removeItem E st2 authorityKey)))))
      else (None, remove_generic_items E st0))"

definition cleanRequestByState ::
  "env \<Rightarrow> cache_state \<Rightarrow> string \<Rightarrow> error option \<times> cache_state" where
  "cleanRequestByState E st stateString =
     (if stateString \<noteq> []
      then (case generateStateKey E stateString of
              Inl e \<Rightarrow> (Some e, st)
            | Inr stateKey \<Rightarrow>
                (let cachedState = getItem st stateKey
                 in resetRequestCache E st
                      (case cachedState of None \<Rightarrow> [] | Some c \<Rightarrow> c)))
      else (None, st))"

section \<open>Authority\<close>

record OpenIdConfigResponse =
  authorization_endpoint :: string
  token_endpoint :: string
  end_session_endpoint :: string
  issuer :: string

text \<open>The two fields of \<open>IUri\<close> the class reads.\<close>

record IUri =
  HostNameAndPort :: string
  PathSegments :: "string list"

datatype ProtocolMode = AAD | OIDC

datatype AuthorityType = Default | Adfs

text \<open>
  Modelled from the spec: \<open>TrustedAuthority\<close> is not under src/. A TrustRegistry entry
  is {host, alias set, preferred network host, preferred cache host}; the registry is
  process-wide, and when it is empty one lazy network fetch of the trusted-host list
  repopulates it. \<open>network_log\<close> records the requests made, in order.
\<close>

record CloudDiscoveryMetadata =
  preferred_network :: string
  preferred_cache :: string
  aliases :: "string list"

type_synonym registry = "(string \<times> CloudDiscoveryMetadata) list"

datatype net_call = TrustedHostsRequest string | OpenIdConfigRequest string

record world =
  TrustedHostList :: registry
  network_log :: "net_call list"

text \<open>
  What src/ does not hold: the constructor of \<open>UrlString\<close> (the canonical url string,
  or the error it throws), \<open>validateAsUri\<close> (the error it throws, if any),
  \<open>getUrlComponents\<close> (total: it is only called on a url that passed
  \<open>validateAsUri\<close>), the network module (the body of the response, or the error the
  promise is rejected with), the trusted-host list the network returns for an authority,
  and \<open>Constants.ADFS\<close>.
\<close>

record authority_env =
  new_UrlString :: "string \<Rightarrow> error + string"
  validateAsUri :: "string \<Rightarrow> error option"
  getUrlComponents :: "string \<Rightarrow> IUri"
  sendGetRequestAsync :: "string \<Rightarrow> error + OpenIdConfigResponse"
  trusted_hosts_from_network :: "string \<Rightarrow> registry"
  ADFS :: string

record Authority =
  canonicalAuthority :: string
  tenantDiscoveryResponse :: "OpenIdConfigResponse option"
  authorityProtocolMode :: ProtocolMode

definition getTrustedHostList :: "world \<Rightarrow> string list" where
  "getTrustedHostList W = map fst (TrustedHostList W)"

definition IsInTrustedHostList :: "world \<Rightarrow> string \<Rightarrow> bool" where
  "IsInTrustedHostList W host = (host \<in> set (map fst (TrustedHostList W)))"

definition getCloudDiscoveryMetadata :: "world \<Rightarrow> string \<Rightarrow> CloudDiscoveryMetadata option" where
  "getCloudDiscoveryMetadata W host = map_of (TrustedHostList W) host"

definition setTrustedAuthoritiesFromNetwork :: "authority_env \<Rightarrow> string \<Rightarrow> world \<Rightarrow> world" where
  "setTrustedAuthoritiesFromNetwork N authorityToVerify W =
     W\<lparr>TrustedHostList := trusted_hosts_from_network N authorityToVerify,
       network_log := network_log W @ [TrustedHostsRequest authorityToVerify]\<rparr>"

text \<open>\<^verbatim>\<open>toLowerCase\<close> on the ASCII letters.\<close>

definition toLowerCase :: "string \<Rightarrow> string" where
  "toLowerCase s =
     map (\<lambda>c. if 65 \<le> (of_char c :: nat) \<and> (of_char c :: nat) \<le> 90
              then char_of (of_char c + (32 :: nat)) else c) s"

text \<open>
  The setter of \<open>canonicalAuthority\<close>: the new \<open>UrlString\<close> is assigned before it is
  validated. The memo \<open>_canonicalAuthorityUrlComponents\<close>, which the setter resets
  and the getter refills from the current url, is the function
  \<open>canonicalAuthorityUrlComponents\<close> of the current url. The two differ in one
  situation, which no property below reaches: when \<open>validateAsUri\<close> throws in the
  setter the source leaves the memo as it was, so that an authority kept after that
  error answers with the components of its previous url.
\<close>

definition set_canonicalAuthority ::
  "authority_env \<Rightarrow> Authority \<Rightarrow> string \<Rightarrow> error option \<times> Authority" where
  "set_canonicalAuthority N A url =
     (case new_UrlString N url of
        Inl e \<Rightarrow> (Some e, A)
      | Inr u \<Rightarrow> (validateAsUri N u, A\<lparr>canonicalAuthority := u\<rparr>))"

definition canonicalAuthorityUrlComponents :: "authority_env \<Rightarrow> Authority \<Rightarrow> IUri" where
  "canonicalAuthorityUrlComponents N A = getUrlComponents N (canonicalAuthority A)"

definition authorityType :: "authority_env \<Rightarrow> Authority \<Rightarrow> AuthorityType" where
  "authorityType N A =
     (case PathSegments (canonicalAuthorityUrlComponents N A) of
        [] \<Rightarrow> Default
      | seg # segs \<Rightarrow> if toLowerCase seg = ADFS N then Adfs else Default)"

definition protocolMode :: "Authority \<Rightarrow> ProtocolMode" where
  "protocolMode A = authorityProtocolMode A"

text \<open>\<open>PathSegments[0]\<close> is \<open>undefined\<close> (\<open>None\<close>) when the url has no path segment.\<close>

definition tenant :: "authority_env \<Rightarrow> Authority \<Rightarrow> string option" where
  "tenant N A =
     (case PathSegments (canonicalAuthorityUrlComponents N A) of
        [] \<Rightarrow> None
      | seg # segs \<Rightarrow> Some seg)"

text \<open>
  \<^verbatim>\<open>urlString.replace(/{tenant}|{tenantid}/g, t)\<close>: every match, left to right, the
  first alternative tried first. At each match the replacement string \<open>t\<close> is read by
  \<open>getSubstitution\<close>, with the text of \<open>urlString\<close> before and after the match.
\<close>

fun replace_placeholders_from :: "string \<Rightarrow> string \<Rightarrow> string \<Rightarrow> string" where
  "replace_placeholders_from before [] t = []"
| "replace_placeholders_from before (c # cs) t =
     (if prefix ''{tenant}'' (c # cs)
      then getSubstitution ''{tenant}'' before (drop (length ''{tenant}'') (c # cs)) t
           @ replace_placeholders_from (before @ ''{tenant}'')
               (drop (length ''{tenant}'') (c # cs)) t
      else if prefix ''{tenantid}'' (c # cs)
      then getSubstitution ''{tenantid}'' before (drop (length ''{tenantid}'') (c # cs)) t
           @ replace_placeholders_from (before @ ''{tenantid}'')
               (drop (length ''{tenantid}'') (c # cs)) t
      else c # replace_placeholders_from (before @ [c]) cs t)"

definition replace_placeholders :: "string \<Rightarrow> string \<Rightarrow> string" where
  "replace_placeholders urlString t = replace_placeholders_from [] urlString t"

text \<open>An \<open>undefined\<close> replacement is converted to the string \<open>undefined\<close>.\<close>

definition replaceTenant :: "authority_env \<Rightarrow> Authority \<Rightarrow> string \<Rightarrow> string" where
  "replaceTenant N A urlString =
     replace_placeholders urlString
       (case tenant N A of None \<Rightarrow> ''undefined'' | Some t \<Rightarrow> t)"

definition discoveryComplete :: "Authority \<Rightarrow> bool" where
  "discoveryComplete A = (tenantDiscoveryResponse A \<noteq> None)"

definition authorizationEndpoint :: "authority_env \<Rightarrow> Authority \<Rightarrow> error + string" where
  "authorizationEndpoint N A =
     (case tenantDiscoveryResponse A of
        Some r \<Rightarrow> Inr (replaceTenant N A (authorization_endpoint r))
      | None \<Rightarrow> Inl EndpointDiscoveryIncompleteError)"

definition tokenEndpoint :: "authority_env \<Rightarrow> Authority \<Rightarrow> error + string" where
  "tokenEndpoint N A =
     (case tenantDiscoveryResponse A of
        Some r \<Rightarrow> Inr (replaceTenant N A (token_endpoint r))
      | None \<Rightarrow> Inl EndpointDiscoveryIncompleteError)"

definition deviceCodeEndpoint :: "authority_env \<Rightarrow> Authority \<Rightarrow> error + string" where
  "deviceCodeEndpoint N A =
     (case tenantDiscoveryResponse A of
        Some r \<Rightarrow> Inr (replace_first (token_endpoint r) ''/token'' ''/devicecode'')
      | None \<Rightarrow> Inl EndpointDiscoveryIncompleteError)"

definition endSessionEndpoint :: "authority_env \<Rightarrow> Authority \<Rightarrow> error + string" where
  "endSessionEndpoint N A =
     (case tenantDiscoveryResponse A of
        Some r \<Rightarrow> Inr (replaceTenant N A (end_session_endpoint r))
      | None \<Rightarrow> Inl EndpointDiscoveryIncompleteError)"

definition selfSignedJwtAudience :: "authority_env \<Rightarrow> Authority \<Rightarrow> error + string" where
  "selfSignedJwtAudience N A =
     (case tenantDiscoveryResponse A of
        Some r \<Rightarrow> Inr (replaceTenant N A (issuer r))
      | None \<Rightarrow> Inl EndpointDiscoveryIncompleteError)"

definition defaultOpenIdConfigurationEndpoint :: "authority_env \<Rightarrow> Authority \<Rightarrow> string" where
  "defaultOpenIdConfigurationEndpoint N A =
     (if authorityType N A = Adfs \<or> protocolMode A = OIDC
      then canonicalAuthority A @ ''.well-known/openid-configuration''
      else canonicalAuthority A @ ''v2.0/.well-known/openid-configuration'')"

definition discoverEndpoints ::
  "authority_env \<Rightarrow> string \<Rightarrow> world \<Rightarrow> (error + OpenIdConfigResponse) \<times> world" where
  "discoverEndpoints N openIdConfigurationEndpoint W =
     (sendGetRequestAsync N openIdConfigurationEndpoint,
      W\<lparr>network_log := network_log W @ [OpenIdConfigRequest openIdConfigurationEndpoint]\<rparr>)"

text \<open>
  The asynchronous methods return the error thrown, if any, with the authority and the
  world as they are when the method ends.
\<close>

definition validateAndSetPreferredNetwork ::
  "authority_env \<Rightarrow> Authority \<Rightarrow> world \<Rightarrow> error option \<times> Authority \<times> world" where
  "validateAndSetPreferredNetwork N A W =
     (let host = HostNameAndPort (canonicalAuthorityUrlComponents N A);
          W1 = (if length (getTrustedHostList W) = 0
                then setTrustedAuthoritiesFromNetwork N (canonicalAuthority A) W
                else W)
      in if \<not> IsInTrustedHostList W1 host then (Some UntrustedAuthorityError, A, W1)
         else (case getCloudDiscoveryMetadata W1 host of
                 None \<Rightarrow> (Some TypeError, A, W1)
               | Some metadata \<Rightarrow>
                   (let preferredNetwork = preferred_network metadata in
                    if host \<noteq> preferredNetwork
                    then (case set_canonicalAuthority N A
                                 (replace_first (canonicalAuthority A) host preferredNetwork) of
                            (err, A') \<Rightarrow> (err, A', W1))
                    else (None, A, W1))))"

definition resolveEndpointsAsync ::
  "authority_env \<Rightarrow> Authority \<Rightarrow> world \<Rightarrow> error option \<times> Authority \<times> world" where
  "resolveEndpointsAsync N A W =
     (case validateAndSetPreferredNetwork N A W of
        (Some e, A1, W1) \<Rightarrow> (Some e, A1, W1)
      | (None, A1, W1) \<Rightarrow>
          (let openIdConfigEndpoint = defaultOpenIdConfigurationEndpoint N A1 in
           case discoverEndpoints N openIdConfigEndpoint W1 of
             (Inl e, W2) \<Rightarrow> (Some e, A1, W2)
           | (Inr body, W2) \<Rightarrow> (None, A1\<lparr>tenantDiscoveryResponse := Some body\<rparr>, W2)))"

section \<open>The vocabulary of the properties\<close>

subsection \<open>JSON texts\<close>

text \<open>
  The one fact about the JSON grammar the properties use: a text that
  \<^verbatim>\<open>JSON.parse\<close> turns into an object or an array starts, after optional white
  space, with an opening brace or bracket. So \<open>validateAndParseJson\<close> returns \<open>null\<close> on
  every other string.
\<close>

definition json_ws :: "char \<Rightarrow> bool" where
  "json_ws c = (c = CHR '' '' \<or> c = CHR 0x09 \<or> c = CHR 0x0A \<or> c = CHR 0x0D)"

definition json_grammar :: "env \<Rightarrow> bool" where
  "json_grammar E =
     (\<forall>s. (case dropWhile json_ws s of
              [] \<Rightarrow> True
            | c # cs \<Rightarrow> c \<noteq> CHR ''{'' \<and> c \<noteq> CHR ''['')
          \<longrightarrow> validateAndParseJson E s = None)"

subsection \<open>The entity store by kind\<close>

text \<open>
  The spec's \<open>read(kind, key)\<close> and \<open>write(kind, entity)\<close> over the seven pairs of
  methods. \<open>callerKey\<close> is the key argument of \<open>setServerTelemetry\<close> and
  \<open>setThrottlingCache\<close>; the other five writes take no key. \<open>written_key\<close> is the
  key of the item a write sets.
\<close>

datatype entity_kind =
  Account | IdToken | AccessToken | RefreshToken | AppMetadata | ServerTelemetry | Throttling

definition entity_read ::
  "env \<Rightarrow> cache_state \<Rightarrow> entity_kind \<Rightarrow> string \<Rightarrow> error + json option" where
  "entity_read E st kind key =
     (case kind of
        Account \<Rightarrow> getAccount E st key
      | IdToken \<Rightarrow> getIdTokenCredential E st key
      | AccessToken \<Rightarrow> getAccessTokenCredential E st key
      | RefreshToken \<Rightarrow> getRefreshTokenCredential E st key
      | AppMetadata \<Rightarrow> getAppMetadata E st key
      | ServerTelemetry \<Rightarrow> getServerTelemetry E st key
      | Throttling \<Rightarrow> getThrottlingCache E st key)"

definition entity_write ::
  "env \<Rightarrow> cache_state \<Rightarrow> entity_kind \<Rightarrow> string \<Rightarrow> json \<Rightarrow> cache_state" where
  "entity_write E st kind callerKey e =
     (case kind of
        Account \<Rightarrow> setAccount E st e
      | IdToken \<Rightarrow> setIdTokenCredential E st e
      | AccessToken \<Rightarrow> setAccessTokenCredential E st e
      | RefreshToken \<Rightarrow> setRefreshTokenCredential E st e
      | AppMetadata \<Rightarrow> setAppMetadata E st e
      | ServerTelemetry \<Rightarrow> setServerTelemetry E st callerKey e
      | Throttling \<Rightarrow> setThrottlingCache E st callerKey e)"

definition written_key :: "env \<Rightarrow> entity_kind \<Rightarrow> string \<Rightarrow> json \<Rightarrow> string" where
  "written_key E kind callerKey e =
     (case kind of
        Account \<Rightarrow> generateAccountKey E e
      | IdToken \<Rightarrow> generateCredentialKey E e
      | AccessToken \<Rightarrow> generateCredentialKey E e
      | RefreshToken \<Rightarrow> generateCredentialKey E e
      | AppMetadata \<Rightarrow> generateAppMetadataKey E e
      | ServerTelemetry \<Rightarrow> callerKey
      | Throttling \<Rightarrow> callerKey)"

definition takes_caller_key :: "entity_kind \<Rightarrow> bool" where
  "takes_caller_key kind = (kind = ServerTelemetry \<or> kind = Throttling)"

definition new_entity :: "env \<Rightarrow> entity_kind \<Rightarrow> json" where
  "new_entity E kind =
     (case kind of
        Account \<Rightarrow> new_AccountEntity E
      | IdToken \<Rightarrow> new_IdTokenEntity E
      | AccessToken \<Rightarrow> new_AccessTokenEntity E
      | RefreshToken \<Rightarrow> new_RefreshTokenEntity E
      | AppMetadata \<Rightarrow> new_AppMetadataEntity E
      | ServerTelemetry \<Rightarrow> new_ServerTelemetryEntity E
      | Throttling \<Rightarrow> new_ThrottlingEntity E)"

definition validates :: "env \<Rightarrow> entity_kind \<Rightarrow> string \<Rightarrow> json \<Rightarrow> error + bool" where
  "validates E kind key e =
     (case kind of
        Account \<Rightarrow> isAccountEntity E e
      | IdToken \<Rightarrow> isIdTokenEntity E e
      | AccessToken \<Rightarrow> isAccessTokenEntity E e
      | RefreshToken \<Rightarrow> isRefreshTokenEntity E e
      | AppMetadata \<Rightarrow> isAppMetadataEntity E key e
      | ServerTelemetry \<Rightarrow> isServerTelemetryEntity E key e
      | Throttling \<Rightarrow> isThrottlingEntity E key e)"

subsection \<open>JSON values and entities as the platform has them\<close>

text \<open>
  A value of type \<open>json\<close> stands for one JavaScript value when it is JSON-safe: its
  numbers are safe integers and, in each of its objects, the property names are distinct,
  none is an array index (JavaScript lists those first, whatever the order of
  insertion), and none is \<^verbatim>\<open>__proto__\<close> (an assignment to it sets no property). On
  these values the platform's two JSON functions are inverse: \<^verbatim>\<open>JSON.parse\<close> reads
  what \<^verbatim>\<open>JSON.stringify\<close> writes, and \<^verbatim>\<open>JSON.stringify\<close> never writes the empty
  string.
\<close>

definition is_digit :: "char \<Rightarrow> bool" where
  "is_digit c = (48 \<le> (of_char c :: nat) \<and> (of_char c :: nat) \<le> 57)"

definition plain_key :: "string \<Rightarrow> bool" where
  "plain_key k = (k \<noteq> ''__proto__'' \<and> (k = [] \<or> \<not> list_all is_digit k))"

fun json_safe :: "json \<Rightarrow> bool" where
  "json_safe JNull = True"
| "json_safe (JBool b) = True"
| "json_safe (JNumber i) = (\<bar>i\<bar> \<le> 9007199254740991)"
| "json_safe (JString s) = True"
| "json_safe (JArray xs) = (\<forall>x \<in> set xs. json_safe x)"
| "json_safe (JObject ps) =
     (distinct (map fst ps) \<and> (\<forall>k \<in> set (map fst ps). plain_key k)
      \<and> (\<forall>v \<in> set (map snd ps). json_safe v))"

definition json_roundtrip :: "env \<Rightarrow> bool" where
  "json_roundtrip E =
     (\<forall>v. json_safe v \<longrightarrow>
          JSON_stringify E v \<noteq> [] \<and> JSON_parse E (JSON_stringify E v) = Some v)"

text \<open>
  \<open>CacheManager.toObject(obj, json)\<close> is not under src/. The property below says that
  it assigns the properties of \<open>json\<close> to \<open>obj\<close>, in their order, and returns \<open>obj\<close>:
  a property that \<open>obj\<close> has keeps its place and takes the new value, any other is added
  at the end.
\<close>

definition toObject_assigns :: "env \<Rightarrow> bool" where
  "toObject_assigns E =
     (\<forall>ps qs. json_safe (JObject qs) \<longrightarrow>
          toObject E (JObject ps) (Some (JObject qs)) =
            Inr (JObject (foldl (\<lambda>obj (k, v). AList.update k v obj) ps qs)))"

text \<open>
  A valid entity of a kind, to be stored under \<open>key\<close>: a JSON-safe object of the
  kind's class, that is, one whose properties begin with those the constructor of the
  class creates, and which the validation predicate of the kind accepts.
\<close>

definition valid_entity :: "env \<Rightarrow> entity_kind \<Rightarrow> string \<Rightarrow> json \<Rightarrow> bool" where
  "valid_entity E kind key e =
     (json_safe e
      \<and> (case (new_entity E kind, e) of
            (JObject ns, JObject ps) \<Rightarrow> prefix (map fst ns) (map fst ps)
          | _ \<Rightarrow> False)
      \<and> validates E kind key e = Inr True)"

text \<open>Any number of writes in a row, each with its kind, its key argument and its entity.\<close>

definition entity_writes ::
  "env \<Rightarrow> cache_state \<Rightarrow> (entity_kind \<times> string \<times> json) list \<Rightarrow> cache_state" where
  "entity_writes E st ws =
     foldl (\<lambda>s w. entity_write E s (fst w) (fst (snd w)) (snd (snd w))) st ws"

subsection \<open>Lookup as the spec words it\<close>

text \<open>
  The spec's \<open>lookup\<close>: "reads the primary store first, falls back to the side-channel
  mirror only for the kinds configured to use it".
\<close>

definition lookup_primary_first ::
  "env \<Rightarrow> cache_state \<Rightarrow> string \<Rightarrow> error + string option" where
  "lookup_primary_first E st key =
     (let v = getItem st key in
      if \<not> isEmpty v then Inr v
      else if storeAuthStateInCookie E
      then (case getItemCookie E st key of
              Inl e \<Rightarrow> Inl e
            | Inr itemCookie \<Rightarrow> Inr (if itemCookie \<noteq> [] then Some itemCookie else None))
      else Inr None)"

subsection \<open>Requests\<close>

text \<open>
  The key of a request item (its name and the correlation id, through
  \<open>generateCacheKey\<close>); any number of \<open>updateCacheEntries\<close> calls in a row, each
  with its state, nonce and authority; the keys of the three request items of a state;
  the four fixed-name items \<open>resetRequestCache\<close> removes.
\<close>

definition request_key :: "env \<Rightarrow> string \<Rightarrow> string \<Rightarrow> string" where
  "request_key E base i = generateCacheKey E (base @ ''.'' @ i)"

definition begin_requests ::
  "env \<Rightarrow> cache_state \<Rightarrow> (string \<times> string \<times> string) list \<Rightarrow> cache_state" where
  "begin_requests E st reqs =
     foldl (\<lambda>s r. snd (updateCacheEntries E s (fst r) (fst (snd r)) (snd (snd r)))) st reqs"

definition request_keys :: "env \<Rightarrow> string \<Rightarrow> string list" where
  "request_keys E stateString =
     (case (generateStateKey E stateString, generateNonceKey E stateString,
            generateAuthorityKey E stateString) of
        (Inr stateKey, Inr nonceKey, Inr authorityKey) \<Rightarrow> [stateKey, nonceKey, authorityKey]
      | _ \<Rightarrow> [])"

definition generic_keys :: "env \<Rightarrow> string list" where
  "generic_keys E =
     [generateCacheKey E REQUEST_PARAMS, generateCacheKey E ORIGIN_URI,
      generateCacheKey E URL_HASH, generateCacheKey E INTERACTION_STATUS_KEY]"

subsection \<open>Network requests\<close>

definition is_OpenIdConfigRequest :: "net_call \<Rightarrow> bool" where
  "is_OpenIdConfigRequest c = (case c of OpenIdConfigRequest u \<Rightarrow> True | _ \<Rightarrow> False)"

section \<open>An instance of the environment\<close>

text \<open>
  Modelled from the spec: the entity classes of msal-common are not under src/. In this
  instance a new entity has no field, \<open>toObject\<close> copies the properties of the parsed
  object, each validation predicate "checks the presence of kind-specific required
  fields", and a key is derived from the identity fields of the spec's table. The
  presence of a field is tested with the object's method \<^verbatim>\<open>hasOwnProperty\<close>: on an
  object with a property of that name of its own (which, copied from a JSON text, is
  no function) the call throws a \<open>TypeError\<close>. The platform functions are the tables
  of their values at the texts used below.
\<close>

definition has_fields :: "string list \<Rightarrow> json \<Rightarrow> error + bool" where
  "has_fields fs j =
     (case j of
        JObject ps \<Rightarrow>
          if fs \<noteq> [] \<and> ''hasOwnProperty'' \<in> set (map fst ps) then Inl TypeError
          else Inr (list_all (\<lambda>f. f \<in> set (map fst ps)) fs)
      | _ \<Rightarrow> Inr False)"

definition field_text :: "json \<Rightarrow> string \<Rightarrow> string" where
  "field_text j f =
     (case j of
        JObject ps \<Rightarrow> (case map_of ps f of Some (JString s) \<Rightarrow> s | _ \<Rightarrow> [])
      | _ \<Rightarrow> [])"

fun join_with :: "string \<Rightarrow> string list \<Rightarrow> string" where
  "join_with sep [] = []"
| "join_with sep [x] = x"
| "join_with sep (x # y # ys) = x @ sep @ join_with sep (y # ys)"

text \<open>The decimal digits of a number: the name of an array index, and a JSON number.\<close>

definition digit_char :: "nat \<Rightarrow> char" where
  "digit_char d = ''0123456789'' ! d"

fun digits :: "nat \<Rightarrow> string" where
  "digits n = (if n < 10 then [digit_char n] else digits (n div 10) @ [digit_char (n mod 10)])"

declare digits.simps [simp del]

text \<open>
  The properties of a parsed array are its elements, named by their indices; an object
  lists its index properties first, and a new entity has none.
\<close>

fun copy_properties :: "json \<Rightarrow> json option \<Rightarrow> json" where
  "copy_properties (JObject ps) (Some (JObject qs)) =
     JObject (foldl (\<lambda>acc (k, v). AList.update k v acc) ps qs)"
| "copy_properties (JObject ps) (Some (JArray xs)) =
     JObject (zip (map digits [0..<length xs]) xs @ ps)"
| "copy_properties obj other = obj"

definition account0 :: json where
  "account0 = JObject [(''homeAccountId'', JString ''uid.utid''),
     (''environment'', JString ''login.example.com''), (''realm'', JString ''common''),
     (''localAccountId'', JString ''uid''), (''username'', JString ''user@example.com''),
     (''authorityType'', JString ''MSSTS'')]"

definition account0_text :: string where
  \<open>account0_text = ''{"homeAccountId":"uid.utid","environment":"login.example.com","realm":"common","localAccountId":"uid","username":"user@example.com","authorityType":"MSSTS"}''\<close>

definition telemetry0 :: json where
  "telemetry0 = JObject [(''failedRequests'', JArray []), (''errors'', JArray []),
     (''cacheHits'', JNumber 0)]"

definition telemetry0_text :: string where
  \<open>telemetry0_text = ''{"failedRequests":[],"errors":[],"cacheHits":0}''\<close>

definition json_table :: "(string \<times> json) list" where
  \<open>json_table = [(account0_text, account0), (telemetry0_text, telemetry0),
     (''{}'', JObject []), (''[]'', JArray []), (''null'', JNull),
     (''"abc"'', JString ''abc'')]\<close>

text \<open>
  The browser's side of an assignment to \<^verbatim>\<open>document.cookie\<close>, as far as the class
  uses it: the assigned string starts with the pair \<open>name=value\<close>; the pair replaces
  the cookie of that name, or, when the string carries an \<open>expires\<close> attribute (the
  class only ever passes a date in the past), removes it.
\<close>

definition cookie_name :: "string \<Rightarrow> string" where
  "cookie_name pair = takeWhile (\<lambda>c. c \<noteq> CHR ''='') pair"

definition cookie_jar_assign :: "string \<Rightarrow> string \<Rightarrow> string" where
  "cookie_jar_assign cur new =
     (let pair = takeWhile (\<lambda>c. c \<noteq> CHR '';'') new;
          pairs = (if cur = [] then []
                   else map (dropWhile (\<lambda>c. c = CHR '' '')) (split_on (CHR '';'') cur));
          others = filter (\<lambda>p. cookie_name p \<noteq> cookie_name pair) pairs
      in join_with ''; '' (others @ (if indexOf new ''expires='' \<noteq> - 1 then [] else [pair])))"

definition state_table :: "(string \<times> string) list" where
  "state_table = [(''S1'', ''id1''), (''S1|again'', ''id1''), (''S2'', ''id2'')]"

definition E0 :: env where
  "E0 = \<lparr>
     JSON_parse = map_of json_table,
     JSON_stringify = (\<lambda>j. case map_of (map prod.swap json_table) j of
                               Some t \<Rightarrow> t | None \<Rightarrow> ''null''),
     encodeURIComponent = (\<lambda>s. s),
     decodeURIComponent = Some,
     cookie_assign = cookie_jar_assign,
     date_now = 0,
     toUTCString = (\<lambda>t. ''Thu, 01 Jan 1970 00:00:00 GMT''),
     CACHE_PREFIX = ''msal'',
     ADAL_ID_TOKEN = ''adal.idtoken'',
     parseRequestState = (\<lambda>s. case map_of state_table s of
                               Some i \<Rightarrow> Inr i | None \<Rightarrow> Inl InvalidStateError),
     toObject = (\<lambda>obj parsed. Inr (copy_properties obj parsed)),
     new_AccountEntity = JObject [],
     isAccountEntity = has_fields [''homeAccountId'', ''environment'', ''realm'',
                                   ''localAccountId'', ''username'', ''authorityType''],
     generateAccountKey = (\<lambda>e. join_with ''-'' (map (field_text e)
                                   [''homeAccountId'', ''environment'', ''realm''])),
     new_IdTokenEntity = JObject [],
     isIdTokenEntity = has_fields [''homeAccountId'', ''environment'', ''credentialType'',
                                   ''clientId'', ''realm'', ''secret''],
     new_AccessTokenEntity = JObject [],
     isAccessTokenEntity = has_fields [''homeAccountId'', ''environment'', ''credentialType'',
                                   ''clientId'', ''realm'', ''target'', ''secret''],
     new_RefreshTokenEntity = JObject [],
     isRefreshTokenEntity = has_fields [''homeAccountId'', ''environment'', ''credentialType'',
                                   ''clientId'', ''secret''],
     generateCredentialKey = (\<lambda>e. join_with ''-'' (map (field_text e)
                                   [''homeAccountId'', ''environment'', ''credentialType'',
                                    ''clientId'', ''realm'', ''target''])),
     new_AppMetadataEntity = JObject [],
     isAppMetadataEntity = (\<lambda>key. has_fields [''clientId'', ''environment'']),
     generateAppMetadataKey = (\<lambda>e. join_with ''-'' (''appmetadata'' # map (field_text e)
                                   [''environment'', ''clientId''])),
     new_ServerTelemetryEntity = JObject [],
     isServerTelemetryEntity = (\<lambda>key. has_fields [''failedRequests'', ''errors'']),
     new_ThrottlingEntity = JObject [],
     isThrottlingEntity = (\<lambda>key. has_fields [''throttleTime'']),
     removeAllAccounts = (\<lambda>st. st),
     removeAppMetadata = (\<lambda>st. st),
     clientId = ''cid'',
     storeAuthStateInCookie = False \<rparr>"

text \<open>The same instance with the cookie mirror switched on.\<close>

definition E0_cookie :: env where
  "E0_cookie = E0\<lparr>storeAuthStateInCookie := True\<rparr>"

definition empty_state :: cache_state where
  "empty_state = \<lparr>browserStorage = [], document_cookie = []\<rparr>"

text \<open>
  An authority environment: one trusted cloud, whose discovery document carries the
  tenant placeholders.
\<close>

definition registry0 :: registry where
  "registry0 =
     [(''login.microsoftonline.com'',
       \<lparr>preferred_network = ''login.microsoftonline.com'',
        preferred_cache = ''login.windows.net'',
        aliases = [''login.microsoftonline.com'', ''login.windows.net'']\<rparr>)]"

definition url_table :: "(string \<times> IUri) list" where
  "url_table =
     [(''https://login.microsoftonline.com/common/'',
       \<lparr>HostNameAndPort = ''login.microsoftonline.com'', PathSegments = [''common'']\<rparr>),
      (''https://login.untrusted.example/common/'',
       \<lparr>HostNameAndPort = ''login.untrusted.example'', PathSegments = [''common'']\<rparr>)]"

definition openid_table :: "(string \<times> OpenIdConfigResponse) list" where
  "openid_table =
     [(''https://login.microsoftonline.com/common/v2.0/.well-known/openid-configuration'',
       \<lparr>authorization_endpoint =
          ''https://login.microsoftonline.com/{tenant}/oauth2/v2.0/authorize'',
        token_endpoint = ''https://login.microsoftonline.com/{tenant}/oauth2/v2.0/token'',
        end_session_endpoint =
          ''https://login.microsoftonline.com/{tenant}/oauth2/v2.0/logout'',
        issuer = ''https://login.microsoftonline.com/{tenantid}/v2.0''\<rparr>)]"

definition N0 :: authority_env where
  "N0 = \<lparr>
     new_UrlString = Inr,
     validateAsUri = (\<lambda>u. None),
     getUrlComponents = (\<lambda>u. case map_of url_table u of
                              Some c \<Rightarrow> c
                            | None \<Rightarrow> \<lparr>HostNameAndPort = [], PathSegments = []\<rparr>),
     sendGetRequestAsync = (\<lambda>u. case map_of openid_table u of
                                 Some r \<Rightarrow> Inr r | None \<Rightarrow> Inl NetworkError),
     trusted_hosts_from_network = (\<lambda>u. registry0),
     ADFS = ''adfs'' \<rparr>"

definition authority0 :: Authority where
  "authority0 = \<lparr>canonicalAuthority = ''https://login.microsoftonline.com/common/'',
     tenantDiscoveryResponse = None, authorityProtocolMode = AAD\<rparr>"

definition untrusted0 :: Authority where
  "untrusted0 = \<lparr>canonicalAuthority = ''https://login.untrusted.example/common/'',
     tenantDiscoveryResponse = None, authorityProtocolMode = AAD\<rparr>"

definition world0 :: world where
  "world0 = \<lparr>TrustedHostList = [], network_log = []\<rparr>"

text \<open>
  Cache states and a trusted world for the instances. \<open>cookie_state\<close> is reached by
  \<open>setTemporaryCache\<close>, which mirrors in the cookie, and then \<open>setItem\<close>, which does
  not.
\<close>

definition cookie_state :: cache_state where
  "cookie_state =
     setItem (setTemporaryCache E0_cookie empty_state ''msal.cid.nonce.id_token.id1'' ''N0'' False)
       ''msal.cid.nonce.id_token.id1'' ''N1''"

definition malformed_state :: cache_state where
  \<open>malformed_state = \<lparr>browserStorage =
       [(''a'', ''{oops''), (''b'', ''"abc"''), (''c'', ''{}'')],
     document_cookie = []\<rparr>\<close>

definition clear_state :: cache_state where
  "clear_state = \<lparr>browserStorage =
       [(''msal.cid.request.params'', ''p''), (''settings.theme'', ''dark''),
        (''cid.idtoken'', ''t''), (''server-telemetry-cid'', ''{}'')],
     document_cookie = []\<rparr>"

definition request_state0 :: cache_state where
  "request_state0 = \<lparr>browserStorage =
       [(''msal.cid.request.state.id2'', ''S2''), (''msal.cid.nonce.id_token.id2'', ''N2''),
        (''msal.cid.authority.id2'', ''https://login.example.com/common/''),
        (''msal.cid.request.params'', ''e30=''), (''settings.theme'', ''dark'')],
     document_cookie = []\<rparr>"

definition requests0 :: "(string \<times> string \<times> string) list" where
  "requests0 = [(''S1'', ''N1'', ''https://login.example.com/common/''),
                (''S1|again'', ''N1b'', ''https://login.example.com/common/'')]"

definition trusted_world :: world where
  "trusted_world = \<lparr>TrustedHostList = registry0, network_log = []\<rparr>"

text \<open>
  A JSON writer and reader, for an instance whose \<^verbatim>\<open>JSON.stringify\<close> and
  \<^verbatim>\<open>JSON.parse\<close> work on every text rather than on a table: the writer escapes as
  \<^verbatim>\<open>JSON.stringify\<close> does and writes no white space; the reader accepts white space
  between the tokens and all escapes of a character below 256, and fails (as
  \<^verbatim>\<open>JSON.parse\<close> throws) on everything else, also on a number with a fraction or an
  exponent, which \<open>json\<close> does not hold. It returns the members of an object in the
  order of the text, as JavaScript does for the names of a JSON-safe object. The reader
  descends with the length of the text as its fuel, which is enough for every text the
  writer writes.
\<close>

definition digit_val :: "char \<Rightarrow> nat" where
  "digit_val c = of_char c - 48"

definition write_number :: "int \<Rightarrow> string" where
  "write_number i = (if i < 0 then CHR ''-'' # digits (nat (- i)) else digits (nat i))"

definition number_end :: "string \<Rightarrow> bool" where
  "number_end rest =
     (case rest of
        [] \<Rightarrow> True
      | c # cs \<Rightarrow> \<not> is_digit c \<and> c \<noteq> CHR ''.'' \<and> c \<noteq> CHR ''e'' \<and> c \<noteq> CHR ''E'')"

definition read_digits :: "string \<Rightarrow> (nat \<times> string) option" where
  "read_digits s =
     (let ds = takeWhile is_digit s; rest = dropWhile is_digit s in
      if ds = [] \<or> (1 < length ds \<and> hd ds = CHR ''0'') \<or> \<not> number_end rest then None
      else Some (foldl (\<lambda>acc c. 10 * acc + digit_val c) 0 ds, rest))"

definition read_number :: "string \<Rightarrow> (int \<times> string) option" where
  "read_number s =
     (case s of
        [] \<Rightarrow> None
      | c # cs \<Rightarrow>
          if c = CHR ''-''
          then map_option (\<lambda>(n, rest). (- int n, rest)) (read_digits cs)
          else map_option (\<lambda>(n, rest). (int n, rest)) (read_digits s))"

definition hex_char :: "nat \<Rightarrow> char" where
  "hex_char d = ''0123456789abcdef'' ! d"

definition hex_val :: "char \<Rightarrow> nat option" where
  "hex_val c =
     (let n = (of_char c :: nat) in
      if 48 \<le> n \<and> n \<le> 57 then Some (n - 48)
      else if 97 \<le> n \<and> n \<le> 102 then Some (n - 87)
      else if 65 \<le> n \<and> n \<le> 70 then Some (n - 55)
      else None)"

definition esc :: "char \<Rightarrow> string" where
  "esc c =
     (if c = CHR 0x22 then [CHR 0x5C, CHR 0x22]
      else if c = CHR 0x5C then [CHR 0x5C, CHR 0x5C]
      else if c = CHR 0x08 then [CHR 0x5C, CHR ''b'']
      else if c = CHR 0x0C then [CHR 0x5C, CHR ''f'']
      else if c = CHR 0x0A then [CHR 0x5C, CHR ''n'']
      else if c = CHR 0x0D then [CHR 0x5C, CHR ''r'']
      else if c = CHR 0x09 then [CHR 0x5C, CHR ''t'']
      else if (of_char c :: nat) < 32
      then [CHR 0x5C, CHR ''u'', CHR ''0'', CHR ''0'',
            hex_char ((of_char c :: nat) div 16), hex_char ((of_char c :: nat) mod 16)]
      else [c])"

definition quote :: "string \<Rightarrow> string" where
  "quote s = CHR 0x22 # concat (map esc s) @ [CHR 0x22]"

definition unescape :: "char \<Rightarrow> char option" where
  "unescape e =
     (if e = CHR 0x22 \<or> e = CHR 0x5C \<or> e = CHR ''/'' then Some e
      else if e = CHR ''b'' then Some (CHR 0x08)
      else if e = CHR ''f'' then Some (CHR 0x0C)
      else if e = CHR ''n'' then Some (CHR 0x0A)
      else if e = CHR ''r'' then Some (CHR 0x0D)
      else if e = CHR ''t'' then Some (CHR 0x09)
      else None)"

fun read_chars :: "string \<Rightarrow> (string \<times> string) option" where
  "read_chars [] = None"
| "read_chars (c # s) =
     (if c = CHR 0x22 then Some ([], s)
      else if c = CHR 0x5C then
        (case s of
           [] \<Rightarrow> None
         | e # s1 \<Rightarrow>
             if e = CHR ''u'' then
               (case s1 of
                  h1 # h2 # h3 # h4 # s2 \<Rightarrow>
                    (case (hex_val h1, hex_val h2, hex_val h3, hex_val h4) of
                       (Some a, Some b, Some c, Some d) \<Rightarrow>
                         if a = 0 \<and> b = 0
                         then map_option (apfst ((#) (char_of (16 * c + d)))) (read_chars s2)
                         else None
                     | _ \<Rightarrow> None)
                | _ \<Rightarrow> None)
             else (case unescape e of
                     None \<Rightarrow> None
                   | Some ch \<Rightarrow> map_option (apfst ((#) ch)) (read_chars s1)))
      else if (of_char c :: nat) < 32 then None
      else map_option (apfst ((#) c)) (read_chars s))"

primrec json_write :: "json \<Rightarrow> string" where
  "json_write JNull = ''null''"
| "json_write (JBool b) = (if b then ''true'' else ''false'')"
| "json_write (JNumber i) = write_number i"
| "json_write (JString s) = quote s"
| "json_write (JArray xs) = ''['' @ join_with '','' (map json_write xs) @ '']''"
| "json_write (JObject ps) =
     ''{'' @ join_with '','' (map (\<lambda>p. quote (fst p) @ '':'' @ snd p)
                                 (map (map_prod id json_write) ps)) @ ''}''"

definition read_key :: "string \<Rightarrow> (string \<times> string) option" where
  "read_key s =
     (case dropWhile json_ws s of
        [] \<Rightarrow> None
      | c # r \<Rightarrow>
          if c = CHR 0x22
          then (case read_chars r of
                  None \<Rightarrow> None
                | Some (k, r1) \<Rightarrow>
                    (case dropWhile json_ws r1 of
                       [] \<Rightarrow> None
                     | c1 # r2 \<Rightarrow> if c1 = CHR '':'' then Some (k, r2) else None))
          else None)"

fun read_value :: "nat \<Rightarrow> string \<Rightarrow> (json \<times> string) option"
  and read_elements :: "nat \<Rightarrow> string \<Rightarrow> (json list \<times> string) option"
  and read_members :: "nat \<Rightarrow> string \<Rightarrow> ((string \<times> json) list \<times> string) option" where
  "read_value 0 s = None"
| "read_value (Suc n) s =
     (case dropWhile json_ws s of
        [] \<Rightarrow> None
      | c # r \<Rightarrow>
          if c = CHR ''['' then
            (case dropWhile json_ws r of
               [] \<Rightarrow> None
             | c1 # r1 \<Rightarrow>
                 if c1 = CHR '']'' then Some (JArray [], r1)
                 else (case read_value n (c1 # r1) of
                         None \<Rightarrow> None
                       | Some (x, r2) \<Rightarrow>
                           (case read_elements n r2 of
                              None \<Rightarrow> None
                            | Some (xs, r3) \<Rightarrow> Some (JArray (x # xs), r3))))
          else if c = CHR ''{'' then
            (case dropWhile json_ws r of
               [] \<Rightarrow> None
             | c1 # r1 \<Rightarrow>
                 if c1 = CHR ''}'' then Some (JObject [], r1)
                 else (case read_key (c1 # r1) of
                         None \<Rightarrow> None
                       | Some (k, r2) \<Rightarrow>
                           (case read_value n r2 of
                              None \<Rightarrow> None
                            | Some (v, r3) \<Rightarrow>
                                (case read_members n r3 of
                                   None \<Rightarrow> None
                                 | Some (ps, r4) \<Rightarrow> Some (JObject ((k, v) # ps), r4)))))
          else if c = CHR 0x22 then map_option (apfst JString) (read_chars r)
          else if prefix ''null'' (c # r) then Some (JNull, drop 4 (c # r))
          else if prefix ''true'' (c # r) then Some (JBool True, drop 4 (c # r))
          else if prefix ''false'' (c # r) then Some (JBool False, drop 5 (c # r))
          else map_option (apfst JNumber) (read_number (c # r)))"
| "read_elements 0 s = None"
| "read_elements (Suc n) s =
     (case dropWhile json_ws s of
        [] \<Rightarrow> None
      | c # r \<Rightarrow>
          if c = CHR '']'' then Some ([], r)
          else if c = CHR '','' then
            (case read_value n r of
               None \<Rightarrow> None
             | Some (x, r1) \<Rightarrow> map_option (apfst ((#) x)) (read_elements n r1))
          else None)"
| "read_members 0 s = None"
| "read_members (Suc n) s =
     (case dropWhile json_ws s of
        [] \<Rightarrow> None
      | c # r \<Rightarrow>
          if c = CHR ''}'' then Some ([], r)
          else if c = CHR '','' then
            (case read_key r of
               None \<Rightarrow> None
             | Some (k, r1) \<Rightarrow>
                 (case read_value n r1 of
                    None \<Rightarrow> None
                  | Some (v, r2) \<Rightarrow> map_option (apfst ((#) (k, v))) (read_members n r2)))
          else None)"

definition json_read :: "string \<Rightarrow> json option" where
  "json_read s =
     (case read_value (length s) s of
        None \<Rightarrow> None
      | Some (v, rest) \<Rightarrow> if dropWhile json_ws rest = [] then Some v else None)"

text \<open>
  The instance with this writer and reader, and with a server telemetry class whose
  constructor creates the three fields of the entity, empty.
\<close>

definition E1 :: env where
  "E1 = E0\<lparr>JSON_parse := json_read, JSON_stringify := json_write,
           new_ServerTelemetryEntity := telemetry0\<rparr>"

definition telemetry1 :: json where
  "telemetry1 = JObject [(''failedRequests'', JArray [JNumber 861, JNumber 0]),
     (''errors'', JArray [JString ''interaction_required'']), (''cacheHits'', JNumber 2)]"

definition later_writes :: "(entity_kind \<times> string \<times> json) list" where
  "later_writes =
     [(Account, [], account0),
      (Throttling, ''throttling.cid'', JObject [(''throttleTime'', JNumber 60)])]"

definition damaged_state :: cache_state where
  \<open>damaged_state = \<lparr>browserStorage =
       [(''server-telemetry-cid'', ''{oops''),
        (''uid.utid-login.example.com-common'', ''{"hasOwnProperty":1}'')],
     document_cookie = []\<rparr>\<close>

section \<open>Basic facts\<close>

lemma browserStorage_setItem:
  "browserStorage (setItem st key v) = AList.update key v (browserStorage st)"
  by (simp add: setItem_def storage_setItem_def)

lemma browserStorage_setItemCookie:
  "browserStorage (setItemCookie E st n v x) = browserStorage st"
  by (simp add: setItemCookie_def Let_def)

lemma browserStorage_removeItem:
  "browserStorage (removeItem E st key) = AList.delete key (browserStorage st)"
  by (simp add: removeItem_def storage_removeItem_def clearItemCookie_def
      browserStorage_setItemCookie Let_def)

lemma browserStorage_setTemporaryCache:
  "browserStorage (setTemporaryCache E st key v False) = AList.update key v (browserStorage st)"
  by (simp add: setTemporaryCache_def browserStorage_setItemCookie browserStorage_setItem Let_def)

lemma getItem_map_of: "getItem st key = map_of (browserStorage st) key"
  by (simp add: getItem_def storage_getItem_def)

lemma getKeys_map_fst: "getKeys st = map fst (browserStorage st)"
  by (simp add: getKeys_def storage_getKeys_def)

lemma getItem_setItem:
  "getItem (setItem st key v) k = (if k = key then Some v else getItem st k)"
  by (simp add: getItem_map_of browserStorage_setItem update_conv')

lemma not_json_first_char:
  assumes "json_grammar E" and "\<not> json_ws c" and "c \<noteq> CHR ''{''" and "c \<noteq> CHR ''[''"
  shows "validateAndParseJson E (c # cs) = None"
proof -
  have "dropWhile json_ws (c # cs) = c # cs" using assms(2) by simp
  then show ?thesis
    using assms(1,3,4) unfolding json_grammar_def
    by (elim allE [where x = "c # cs"]) simp
qed

lemma E0_parse_cases:
  "validateAndParseJson E0 s \<noteq> None \<Longrightarrow> s \<in> {account0_text, telemetry0_text, ''{}'', ''[]''}"
  by (auto simp: validateAndParseJson_def E0_def json_table_def split: option.splits if_splits)

lemma E0_json_grammar: "json_grammar E0"
  unfolding json_grammar_def
proof (intro allI impI)
  fix s
  assume a: "case dropWhile json_ws s of [] \<Rightarrow> True | c # cs \<Rightarrow> c \<noteq> CHR ''{'' \<and> c \<noteq> CHR ''[''"
  show "validateAndParseJson E0 s = None"
  proof (rule ccontr)
    assume "validateAndParseJson E0 s \<noteq> None"
    then have "s \<in> {account0_text, telemetry0_text, ''{}'', ''[]''}" by (rule E0_parse_cases)
    with a show False by (auto simp: account0_text_def telemetry0_text_def json_ws_def)
  qed
qed

lemma E0_cookie_json_grammar: "json_grammar E0_cookie"
  using E0_json_grammar by (simp add: json_grammar_def validateAndParseJson_def E0_cookie_def)

section \<open>generateCacheKey is idempotent\<close>

text \<open>
  Claim C9. \<open>generateCacheKey\<close> is idempotent on every key that is not a JSON
  object: applied to its own output it returns that output. A key that already starts
  with the cache prefix is returned unchanged; a key that starts with neither the cache
  prefix nor the ADAL id-token key gets the prefix and the client id prepended, once.
\<close>

theorem generateCacheKey_idempotent:
  assumes "json_grammar E" and "CACHE_PREFIX E = ''msal''"
    and "validateAndParseJson E key = None"
  shows "generateCacheKey E (generateCacheKey E key) = generateCacheKey E key
     \<and> (startsWith key (CACHE_PREFIX E) \<longrightarrow> generateCacheKey E key = key)
     \<and> (\<not> startsWith key (CACHE_PREFIX E) \<and> \<not> startsWith key (ADAL_ID_TOKEN E) \<longrightarrow>
          generateCacheKey E key = CACHE_PREFIX E @ ''.'' @ clientId E @ ''.'' @ key)"
proof (cases "startsWith key (CACHE_PREFIX E) \<or> startsWith key (ADAL_ID_TOKEN E)")
  case True
  then have "generateCacheKey E key = key"
    using assms(3) by (simp add: generateCacheKey_def)
  then show ?thesis using True by simp
next
  case False
  let ?out = "CACHE_PREFIX E @ ''.'' @ clientId E @ ''.'' @ key"
  have out: "generateCacheKey E key = ?out"
    using False assms(3) by (simp add: generateCacheKey_def)
  have "validateAndParseJson E ?out = None"
    using not_json_first_char [OF assms(1), of "CHR ''m''"] assms(2) by (simp add: json_ws_def)
  moreover have "startsWith ?out (CACHE_PREFIX E)"
    by (simp add: startsWith_def)
  ultimately have "generateCacheKey E ?out = ?out"
    by (simp add: generateCacheKey_def)
  with out False show ?thesis by simp
qed

theorem generateCacheKey_idempotent_witness:
  "json_grammar E0 \<and> CACHE_PREFIX E0 = ''msal''
   \<and> validateAndParseJson E0 ''request.params'' = None
   \<and> generateCacheKey E0 ''request.params'' = ''msal.cid.request.params''
   \<and> generateCacheKey E0 (generateCacheKey E0 ''request.params'') =
       generateCacheKey E0 ''request.params''"
proof -
  have h2: "CACHE_PREFIX E0 = ''msal''" by (simp add: E0_def)
  have h3: "validateAndParseJson E0 ''request.params'' = None"
    by (rule not_json_first_char [OF E0_json_grammar]) (simp_all add: json_ws_def)
  have v: "generateCacheKey E0 ''request.params'' = ''msal.cid.request.params''"
    using h3 by (simp add: generateCacheKey_def startsWith_def E0_def)
  from generateCacheKey_idempotent [OF E0_json_grammar h2 h3]
  have "generateCacheKey E0 (generateCacheKey E0 ''request.params'') =
       generateCacheKey E0 ''request.params''" by (rule conjunct1)
  with E0_json_grammar h2 h3 v show ?thesis by (intro conjI)
qed

section \<open>Request keys are namespaced by the correlation id\<close>

lemma not_json_base:
  assumes "json_grammar E"
    and "base = REQUEST_STATE \<or> base = NONCE_IDTOKEN \<or> base = AUTHORITY"
  shows "validateAndParseJson E (base @ rest) = None"
proof -
  from assms(2) obtain c cs where c: "base = c # cs" "c = CHR ''r'' \<or> c = CHR ''n'' \<or> c = CHR ''a''"
    by (auto simp: REQUEST_STATE_def NONCE_IDTOKEN_def AUTHORITY_def)
  have "validateAndParseJson E (c # (cs @ rest)) = None"
    by (rule not_json_first_char [OF assms(1)]) (use c(2) in \<open>auto simp: json_ws_def\<close>)
  then show ?thesis using c(1) by simp
qed

lemma temp_key_form:
  assumes "json_grammar E" and "CACHE_PREFIX E = ''msal''"
    and "base = REQUEST_STATE \<or> base = NONCE_IDTOKEN \<or> base = AUTHORITY"
  shows "generateCacheKey E (base @ ''.'' @ i) = base @ ''.'' @ i
       \<or> generateCacheKey E (base @ ''.'' @ i) = ''msal.'' @ clientId E @ ''.'' @ base @ ''.'' @ i"
proof -
  have "validateAndParseJson E (base @ ''.'' @ i) = None"
    by (rule not_json_base [OF assms(1,3)])
  then show ?thesis
    using assms(2) by (simp add: generateCacheKey_def)
qed

lemma base_inj:
  assumes b: "b = REQUEST_STATE \<or> b = NONCE_IDTOKEN \<or> b = AUTHORITY"
    and b': "b' = REQUEST_STATE \<or> b' = NONCE_IDTOKEN \<or> b' = AUTHORITY"
    and eq: "b @ ''.'' @ i = b' @ ''.'' @ i'"
  shows "b = b' \<and> i = i'"
  using b b' eq
  by (elim disjE) (simp_all add: REQUEST_STATE_def NONCE_IDTOKEN_def AUTHORITY_def)

lemma base_not_msal:
  assumes b: "b = REQUEST_STATE \<or> b = NONCE_IDTOKEN \<or> b = AUTHORITY"
  shows "b @ x \<noteq> ''msal.'' @ y"
  using b
  by (elim disjE) (simp_all add: REQUEST_STATE_def NONCE_IDTOKEN_def AUTHORITY_def)

lemma temp_key_inj:
  assumes "json_grammar E" and "CACHE_PREFIX E = ''msal''"
    and b: "b = REQUEST_STATE \<or> b = NONCE_IDTOKEN \<or> b = AUTHORITY"
    and b': "b' = REQUEST_STATE \<or> b' = NONCE_IDTOKEN \<or> b' = AUTHORITY"
    and eq: "generateCacheKey E (b @ ''.'' @ i) = generateCacheKey E (b' @ ''.'' @ i')"
  shows "b = b' \<and> i = i'"
proof -
  let ?p = "clientId E @ ''.''"
  from temp_key_form [OF assms(1,2) b, of i]
  have f1: "generateCacheKey E (b @ ''.'' @ i) = b @ ''.'' @ i
      \<or> generateCacheKey E (b @ ''.'' @ i) = ''msal.'' @ (?p @ b @ ''.'' @ i)" by simp
  from temp_key_form [OF assms(1,2) b', of i']
  have f2: "generateCacheKey E (b' @ ''.'' @ i') = b' @ ''.'' @ i'
      \<or> generateCacheKey E (b' @ ''.'' @ i') = ''msal.'' @ (?p @ b' @ ''.'' @ i')" by simp
  from f1 f2 show ?thesis
  proof (elim disjE)
    assume "generateCacheKey E (b @ ''.'' @ i) = b @ ''.'' @ i"
      "generateCacheKey E (b' @ ''.'' @ i') = b' @ ''.'' @ i'"
    with eq have "b @ ''.'' @ i = b' @ ''.'' @ i'" by simp
    then show ?thesis by (rule base_inj [OF b b'])
  next
    assume "generateCacheKey E (b @ ''.'' @ i) = b @ ''.'' @ i"
      "generateCacheKey E (b' @ ''.'' @ i') = ''msal.'' @ (?p @ b' @ ''.'' @ i')"
    with eq have "b @ (''.'' @ i) = ''msal.'' @ (?p @ b' @ ''.'' @ i')" by simp
    with base_not_msal [OF b] show ?thesis by blast
  next
    assume "generateCacheKey E (b @ ''.'' @ i) = ''msal.'' @ (?p @ b @ ''.'' @ i)"
      "generateCacheKey E (b' @ ''.'' @ i') = b' @ ''.'' @ i'"
    with eq have "b' @ (''.'' @ i') = ''msal.'' @ (?p @ b @ ''.'' @ i)" by simp
    with base_not_msal [OF b'] show ?thesis by blast
  next
    assume "generateCacheKey E (b @ ''.'' @ i) = ''msal.'' @ (?p @ b @ ''.'' @ i)"
      "generateCacheKey E (b' @ ''.'' @ i') = ''msal.'' @ (?p @ b' @ ''.'' @ i')"
    with eq have "b @ ''.'' @ i = b' @ ''.'' @ i'" by simp
    then show ?thesis by (rule base_inj [OF b b'])
  qed
qed

lemma temp_key_contains_id:
  assumes "json_grammar E" and "CACHE_PREFIX E = ''msal''"
    and b: "b = REQUEST_STATE \<or> b = NONCE_IDTOKEN \<or> b = AUTHORITY"
  shows "\<exists>pre. generateCacheKey E (b @ ''.'' @ i) = pre @ i"
proof -
  from temp_key_form [OF assms, of i] show ?thesis
  proof
    assume "generateCacheKey E (b @ ''.'' @ i) = b @ ''.'' @ i"
    then have "generateCacheKey E (b @ ''.'' @ i) = (b @ ''.'') @ i" by simp
    then show ?thesis by blast
  next
    assume "generateCacheKey E (b @ ''.'' @ i) = ''msal.'' @ clientId E @ ''.'' @ b @ ''.'' @ i"
    then have "generateCacheKey E (b @ ''.'' @ i) = (''msal.'' @ clientId E @ ''.'' @ b @ ''.'') @ i"
      by simp
    then show ?thesis by blast
  qed
qed

lemma request_keys_of_id:
  assumes "parseRequestState E s = Inr i"
  shows "request_keys E s =
     [generateCacheKey E (REQUEST_STATE @ ''.'' @ i),
      generateCacheKey E (NONCE_IDTOKEN @ ''.'' @ i),
      generateCacheKey E (AUTHORITY @ ''.'' @ i)]"
  using assms
  by (simp add: request_keys_def generateStateKey_def generateNonceKey_def generateAuthorityKey_def)

lemma bases_distinct:
  "REQUEST_STATE \<noteq> NONCE_IDTOKEN" "REQUEST_STATE \<noteq> AUTHORITY" "NONCE_IDTOKEN \<noteq> AUTHORITY"
  by (simp_all add: REQUEST_STATE_def NONCE_IDTOKEN_def AUTHORITY_def)

text \<open>
  Claim C8. The temporary cache keys for state, nonce and authority are built from the
  correlation id parsed out of the state, not from the state string: two states with the
  same id give the same three keys, and two states with distinct ids give disjoint keys.
\<close>

theorem request_keys_namespaced_by_id:
  assumes "json_grammar E" and "CACHE_PREFIX E = ''msal''"
    and "parseRequestState E s1 = Inr id1" and "parseRequestState E s2 = Inr id2"
  shows "request_keys E s1 =
           [generateCacheKey E (REQUEST_STATE @ ''.'' @ id1),
            generateCacheKey E (NONCE_IDTOKEN @ ''.'' @ id1),
            generateCacheKey E (AUTHORITY @ ''.'' @ id1)]
       \<and> distinct (request_keys E s1)
       \<and> (id1 = id2 \<longrightarrow> request_keys E s1 = request_keys E s2)
       \<and> (id1 \<noteq> id2 \<longrightarrow> set (request_keys E s1) \<inter> set (request_keys E s2) = {})"
proof -
  note k1 = request_keys_of_id [OF assms(3)]
  note k2 = request_keys_of_id [OF assms(4)]
  have inj: "\<And>b b' i i'. b = REQUEST_STATE \<or> b = NONCE_IDTOKEN \<or> b = AUTHORITY \<Longrightarrow>
            b' = REQUEST_STATE \<or> b' = NONCE_IDTOKEN \<or> b' = AUTHORITY \<Longrightarrow>
            b \<noteq> b' \<or> i \<noteq> i' \<Longrightarrow>
            generateCacheKey E (b @ ''.'' @ i) \<noteq> generateCacheKey E (b' @ ''.'' @ i')"
    using temp_key_inj [OF assms(1,2)] by blast
  have "generateCacheKey E (REQUEST_STATE @ ''.'' @ id1) \<noteq> generateCacheKey E (NONCE_IDTOKEN @ ''.'' @ id1)"
    "generateCacheKey E (REQUEST_STATE @ ''.'' @ id1) \<noteq> generateCacheKey E (AUTHORITY @ ''.'' @ id1)"
    "generateCacheKey E (NONCE_IDTOKEN @ ''.'' @ id1) \<noteq> generateCacheKey E (AUTHORITY @ ''.'' @ id1)"
    by (rule inj; simp add: bases_distinct)+
  then have d: "distinct (request_keys E s1)"
    unfolding k1 by simp
  have same: "id1 = id2 \<longrightarrow> request_keys E s1 = request_keys E s2"
    by (simp add: k1 k2)
  have disj: "id1 \<noteq> id2 \<longrightarrow> set (request_keys E s1) \<inter> set (request_keys E s2) = {}"
  proof
    assume ne: "id1 \<noteq> id2"
    have "\<And>b b'. b = REQUEST_STATE \<or> b = NONCE_IDTOKEN \<or> b = AUTHORITY \<Longrightarrow>
            b' = REQUEST_STATE \<or> b' = NONCE_IDTOKEN \<or> b' = AUTHORITY \<Longrightarrow>
            generateCacheKey E (b @ ''.'' @ id1) \<noteq> generateCacheKey E (b' @ ''.'' @ id2)"
      by (rule inj) (simp_all add: ne)
    then show "set (request_keys E s1) \<inter> set (request_keys E s2) = {}"
      unfolding k1 k2 by simp
  qed
  from k1 d same disj show ?thesis by (intro conjI)
qed

lemma E0_temp_key:
  assumes b: "b = REQUEST_STATE \<or> b = NONCE_IDTOKEN \<or> b = AUTHORITY"
  shows "generateCacheKey E0 (b @ ''.'' @ i) = ''msal.cid.'' @ b @ ''.'' @ i"
proof -
  have "validateAndParseJson E0 (b @ ''.'' @ i) = None"
    by (rule not_json_base [OF E0_json_grammar b])
  moreover have "\<not> startsWith (b @ ''.'' @ i) ''msal''" "\<not> startsWith (b @ ''.'' @ i) ''adal.idtoken''"
    using b by (elim disjE; simp add: startsWith_def REQUEST_STATE_def NONCE_IDTOKEN_def AUTHORITY_def)+
  ultimately show ?thesis
    by (simp add: generateCacheKey_def E0_def)
qed

theorem request_keys_namespaced_by_id_witness:
  "json_grammar E0 \<and> CACHE_PREFIX E0 = ''msal''
   \<and> parseRequestState E0 ''S1'' = Inr ''id1'' \<and> parseRequestState E0 ''S2'' = Inr ''id2''
   \<and> request_keys E0 ''S1'' =
       [''msal.cid.request.state.id1'', ''msal.cid.nonce.id_token.id1'', ''msal.cid.authority.id1'']
   \<and> set (request_keys E0 ''S1'') \<inter> set (request_keys E0 ''S2'') = {}"
proof -
  have h2: "CACHE_PREFIX E0 = ''msal''" by (simp add: E0_def)
  have p1: "parseRequestState E0 ''S1'' = Inr ''id1''" by (simp add: E0_def state_table_def)
  have p2: "parseRequestState E0 ''S2'' = Inr ''id2''" by (simp add: E0_def state_table_def)
  note t = request_keys_namespaced_by_id [OF E0_json_grammar h2 p1 p2]
  have keys: "request_keys E0 ''S1'' =
       [''msal.cid.request.state.id1'', ''msal.cid.nonce.id_token.id1'', ''msal.cid.authority.id1'']"
    using t E0_temp_key [of REQUEST_STATE "''id1''"] E0_temp_key [of NONCE_IDTOKEN "''id1''"]
      E0_temp_key [of AUTHORITY "''id1''"]
    by (simp add: REQUEST_STATE_def NONCE_IDTOKEN_def AUTHORITY_def)
  from t have "''id1'' \<noteq> ''id2'' \<longrightarrow>
      set (request_keys E0 ''S1'') \<inter> set (request_keys E0 ''S2'') = {}"
    by (elim conjE)
  then have disj: "set (request_keys E0 ''S1'') \<inter> set (request_keys E0 ''S2'') = {}"
    by simp
  from E0_json_grammar h2 p1 p2 keys disj show ?thesis by (intro conjI)
qed

section \<open>The lookup of a temporary item\<close>

text \<open>
  Claim C7, as amended. When the host is configured to mirror in cookies,
  \<open>getTemporaryCache\<close> reads the cookie first and returns its value when it is not
  empty, whatever the primary store holds; it reads the primary store when the cookie
  is empty. When the host is not configured so, only the primary store is read: the
  cookie string does not matter.
\<close>

theorem getTemporaryCache_cookie_first:
  assumes "key = (if generateKey then generateCacheKey E cacheKey else cacheKey)"
  shows "(storeAuthStateInCookie E \<and> getItemCookie E st key = Inr c \<and> c \<noteq> [] \<longrightarrow>
      getTemporaryCache E st cacheKey generateKey = Inr (Some c))
   \<and> (storeAuthStateInCookie E \<and> getItemCookie E st key = Inr [] \<longrightarrow>
      getTemporaryCache E st cacheKey generateKey =
        Inr (if isEmpty (getItem st key) then None else getItem st key))
   \<and> (\<not> storeAuthStateInCookie E \<longrightarrow>
      getTemporaryCache E st cacheKey generateKey =
        Inr (if isEmpty (getItem st key) then None else getItem st key)
      \<and> getTemporaryCache E (st\<lparr>document_cookie := cookies\<rparr>) cacheKey generateKey =
        getTemporaryCache E st cacheKey generateKey)"
  using assms by (simp add: getTemporaryCache_def Let_def getItem_def)

lemma cookie_state_eq:
  "cookie_state = \<lparr>browserStorage = [(''msal.cid.nonce.id_token.id1'', ''N1'')],
     document_cookie = ''msal.cid.nonce.id_token.id1=N0''\<rparr>"
  by (simp add: cookie_state_def setTemporaryCache_def setItem_def storage_setItem_def
      setItemCookie_def Let_def cookie_jar_assign_def cookie_name_def empty_state_def
      E0_cookie_def E0_def)

lemma cookie_state_cookie:
  "getItemCookie E0_cookie cookie_state ''msal.cid.nonce.id_token.id1'' = Inr ''N0''"
  by (simp add: getItemCookie_def cookie_state_eq E0_cookie_def E0_def)

theorem getTemporaryCache_cookie_first_witness:
  "storeAuthStateInCookie E0_cookie
   \<and> getItemCookie E0_cookie cookie_state ''msal.cid.nonce.id_token.id1'' = Inr ''N0''
   \<and> getTemporaryCache E0_cookie cookie_state ''msal.cid.nonce.id_token.id1'' False =
       Inr (Some ''N0'')
   \<and> \<not> storeAuthStateInCookie E0
   \<and> getTemporaryCache E0 cookie_state ''msal.cid.nonce.id_token.id1'' False =
       Inr (Some ''N1'')"
proof -
  have c: "storeAuthStateInCookie E0_cookie" by (simp add: E0_cookie_def)
  have n: "\<not> storeAuthStateInCookie E0" by (simp add: E0_def)
  have k1: "''msal.cid.nonce.id_token.id1'' =
      (if False then generateCacheKey E0_cookie ''msal.cid.nonce.id_token.id1''
       else ''msal.cid.nonce.id_token.id1'')" by simp
  have k2: "''msal.cid.nonce.id_token.id1'' =
      (if False then generateCacheKey E0 ''msal.cid.nonce.id_token.id1''
       else ''msal.cid.nonce.id_token.id1'')" by simp
  note t1 = getTemporaryCache_cookie_first [OF k1, where st = cookie_state and c = "''N0''",
      THEN conjunct1]
  note t2 = getTemporaryCache_cookie_first [OF k2, where st = cookie_state,
      THEN conjunct2, THEN conjunct2]
  have r1: "getTemporaryCache E0_cookie cookie_state ''msal.cid.nonce.id_token.id1'' False =
       Inr (Some ''N0'')"
    using t1 c cookie_state_cookie by simp
  have "getTemporaryCache E0 cookie_state ''msal.cid.nonce.id_token.id1'' False =
       Inr (if isEmpty (getItem cookie_state ''msal.cid.nonce.id_token.id1'') then None
            else getItem cookie_state ''msal.cid.nonce.id_token.id1'')"
    using t2 n by blast
  then have r2: "getTemporaryCache E0 cookie_state ''msal.cid.nonce.id_token.id1'' False =
       Inr (Some ''N1'')"
    by (simp add: getItem_def storage_getItem_def cookie_state_eq isEmpty_def)
  from c cookie_state_cookie r1 n r2 show ?thesis by (intro conjI)
qed

text \<open>
  The claim as the spec words it (primary store first, the cookie as the fallback) fails
  where the cookie and the primary store both hold a value for the key: the source
  returns the cookie's.
\<close>

theorem getTemporaryCache_primary_first_counterexample:
  "getTemporaryCache E0_cookie cookie_state ''msal.cid.nonce.id_token.id1'' False =
     Inr (Some ''N0'')
   \<and> lookup_primary_first E0_cookie cookie_state ''msal.cid.nonce.id_token.id1'' =
     Inr (Some ''N1'')"
proof -
  have c: "storeAuthStateInCookie E0_cookie" by (simp add: E0_cookie_def)
  have "getTemporaryCache E0_cookie cookie_state ''msal.cid.nonce.id_token.id1'' False =
     Inr (Some ''N0'')"
    using c cookie_state_cookie by (simp add: getTemporaryCache_def Let_def)
  moreover have "lookup_primary_first E0_cookie cookie_state ''msal.cid.nonce.id_token.id1'' =
     Inr (Some ''N1'')"
    by (simp add: lookup_primary_first_def getItem_def storage_getItem_def cookie_state_eq
        isEmpty_def)
  ultimately show ?thesis by (rule conjI)
qed

section \<open>The JSON reader reads what the writer writes\<close>

lemma less_10_cases:
  "d < 10 \<Longrightarrow> d \<in> {0, 1, 2, 3, 4, 5, 6, 7, 8, 9 :: nat}"
  by auto

lemma digit_char_val: "d < 10 \<Longrightarrow> digit_val (digit_char d) = d"
  by (drule less_10_cases) (auto simp: digit_val_def digit_char_def)

lemma digit_char_is_digit: "d < 10 \<Longrightarrow> is_digit (digit_char d)"
  by (drule less_10_cases) (auto simp: is_digit_def digit_char_def)

lemma digit_char_zero: "d < 10 \<Longrightarrow> digit_char d = CHR ''0'' \<longleftrightarrow> d = 0"
  by (drule less_10_cases) (auto simp: digit_char_def)

lemma digits_all_digit: "list_all is_digit (digits n)"
  by (induction n rule: digits.induct) (subst digits.simps, simp add: digit_char_is_digit)

lemma digits_nonempty: "digits n \<noteq> []"
  by (subst digits.simps) simp

lemma digits_value: "foldl (\<lambda>acc c. 10 * acc + digit_val c) 0 (digits n) = n"
  by (induction n rule: digits.induct) (subst digits.simps, simp add: digit_char_val)

lemma digits_hd: "0 < n \<Longrightarrow> hd (digits n) \<noteq> CHR ''0''"
proof (induction n rule: digits.induct)
  case (1 n)
  show ?case
  proof (cases "n < 10")
    case True
    with 1(2) show ?thesis by (subst digits.simps) (simp add: digit_char_zero)
  next
    case False
    then have "0 < n div 10" by simp
    with 1(1) False have "hd (digits (n div 10)) \<noteq> CHR ''0''" by simp
    with False show ?thesis by (subst digits.simps) (simp add: digits_nonempty)
  qed
qed


lemma takeWhile_all: "list_all P xs \<Longrightarrow> (case ys of [] \<Rightarrow> True | y # zs \<Rightarrow> \<not> P y) \<Longrightarrow>
  takeWhile P (xs @ ys) = xs \<and> dropWhile P (xs @ ys) = ys"
  by (induction xs) (auto split: list.splits)

lemma number_end_not_digit:
  "number_end rest \<Longrightarrow> (case rest of [] \<Rightarrow> True | y # zs \<Rightarrow> \<not> is_digit y)"
  by (simp add: number_end_def split: list.splits)

lemma read_digits_digits:
  assumes "number_end rest"
  shows "read_digits (digits n @ rest) = Some (n, rest)"
proof -
  from takeWhile_all [OF digits_all_digit number_end_not_digit [OF assms]]
  have t: "takeWhile is_digit (digits n @ rest) = digits n"
    and d: "dropWhile is_digit (digits n @ rest) = rest" by blast+
  have h: "1 < length (digits n) \<Longrightarrow> hd (digits n) \<noteq> CHR ''0''"
  proof -
    assume "1 < length (digits n)"
    then have "0 < n" by (subst (asm) digits.simps) (simp split: if_splits)
    then show ?thesis by (rule digits_hd)
  qed
  show ?thesis
    using assms h by (auto simp add: read_digits_def t d Let_def digits_nonempty digits_value)
qed

lemma digits_not_minus: "hd (digits n) \<noteq> CHR ''-''"
proof -
  have "list_all is_digit (digits n)" by (rule digits_all_digit)
  then have "is_digit (hd (digits n))" using digits_nonempty [of n]
    by (cases "digits n") simp_all
  then show ?thesis by (auto simp: is_digit_def)
qed

lemma read_number_write:
  assumes "number_end rest"
  shows "read_number (write_number i @ rest) = Some (i, rest)"
proof (cases "i < 0")
  case True
  then show ?thesis
    by (simp add: read_number_def write_number_def read_digits_digits [OF assms])
next
  case False
  obtain c cs where d: "digits (nat i) = c # cs" using digits_nonempty [of "nat i"]
    by (cases "digits (nat i)") auto
  with digits_not_minus [of "nat i"] have "c \<noteq> CHR ''-''" by simp
  with False d show ?thesis
    using read_digits_digits [OF assms, of "nat i"]
    by (simp add: read_number_def write_number_def)
qed

lemma less_16_cases:
  "d < 16 \<Longrightarrow> d \<in> {0, 1, 2, 3, 4, 5, 6, 7, 8, 9, 10, 11, 12, 13, 14, 15 :: nat}"
  by simp arith

lemma hex_char_val: "d < 16 \<Longrightarrow> hex_val (hex_char d) = Some d"
  by (drule less_16_cases) (auto simp: hex_val_def hex_char_def)

lemma read_chars_esc:
  "read_chars (esc c @ t) = map_option (apfst ((#) c)) (read_chars t)"
proof -
  let ?n = "of_char c :: nat"
  have h1: "hex_val (hex_char (?n div 16)) = Some (?n div 16)"
    by (rule hex_char_val) (simp add: less_mult_imp_div_less)
  have h2: "hex_val (hex_char (?n mod 16)) = Some (?n mod 16)"
    by (rule hex_char_val) simp
  have z: "hex_val (CHR ''0'') = Some 0" by (simp add: hex_val_def)
  have c: "char_of (16 * (?n div 16) + ?n mod 16) = c" by simp
  show ?thesis
    by (simp add: esc_def unescape_def h1 h2 z c)
qed

lemma read_chars_quote:
  "read_chars (concat (map esc s) @ CHR 0x22 # rest) = Some (s, rest)"
  by (induction s) (simp_all add: read_chars_esc)

lemma join_with_cons: "join_with sep (x # xs) = x @ concat (map (\<lambda>y. sep @ y) xs)"
  by (induction xs arbitrary: x) simp_all

definition value_start :: "char \<Rightarrow> bool" where
  "value_start c = (\<not> json_ws c \<and> c \<noteq> CHR '']'' \<and> c \<noteq> CHR ''}'' \<and> c \<noteq> CHR '','')"

lemma write_number_hd:
  "\<exists>c cs. write_number i = c # cs \<and> (c = CHR ''-'' \<or> is_digit c)"
proof (cases "i < 0")
  case True
  then show ?thesis by (simp add: write_number_def)
next
  case False
  obtain c cs where d: "digits (nat i) = c # cs" using digits_nonempty [of "nat i"]
    by (cases "digits (nat i)") auto
  with digits_all_digit [of "nat i"] have "is_digit c" by simp
  with d False show ?thesis by (simp add: write_number_def)
qed

lemma json_write_hd: "\<exists>c cs. json_write v = c # cs \<and> value_start c"
proof (cases v)
  case (JNumber i)
  from write_number_hd [of i] obtain c cs where
    w: "write_number i = c # cs" and c: "c = CHR ''-'' \<or> is_digit c" by blast
  from c have "value_start c" by (auto simp: value_start_def json_ws_def is_digit_def)
  with w JNumber show ?thesis by simp
qed (simp_all add: value_start_def json_ws_def quote_def)

lemma read_value_number:
  assumes "number_end rest"
  shows "read_value (Suc n) (write_number i @ rest) = Some (JNumber i, rest)"
proof -
  from write_number_hd [of i] obtain c cs where
    w: "write_number i = c # cs" and c: "c = CHR ''-'' \<or> is_digit c" by blast
  from c have 1: "\<not> json_ws c" "c \<noteq> CHR ''[''" "c \<noteq> CHR ''{''" "c \<noteq> CHR 0x22"
    "c \<noteq> CHR ''n''" "c \<noteq> CHR ''t''" "c \<noteq> CHR ''f''"
    by (auto simp: json_ws_def is_digit_def)
  have "read_number (c # cs @ rest) = Some (i, rest)"
    using read_number_write [OF assms, of i] by (simp add: w)
  with 1 show ?thesis by (simp add: w)
qed

definition reads_back :: "json \<Rightarrow> bool" where
  "reads_back v =
     (\<forall>n rest. length (json_write v) \<le> n \<longrightarrow> number_end rest \<longrightarrow>
        read_value n (json_write v @ rest) = Some (v, rest))"

lemma number_end_sep:
  "number_end (CHR '','' # t)" "number_end (CHR '']'' # t)" "number_end (CHR ''}'' # t)"
  by (simp_all add: number_end_def is_digit_def)

lemma read_elements_write:
  assumes "\<And>y. y \<in> set ys \<Longrightarrow> reads_back y"
    and "length (concat (map (\<lambda>y. CHR '','' # json_write y) ys)) < n"
  shows "read_elements n (concat (map (\<lambda>y. CHR '','' # json_write y) ys) @ CHR '']'' # rest) =
           Some (ys, rest)"
  using assms
proof (induction ys arbitrary: n)
  case Nil
  then obtain m where "n = Suc m" by (cases n) auto
  then show ?case by (simp add: json_ws_def)
next
  case (Cons y ys)
  from Cons.prems(2) obtain m where n: "n = Suc m" by (cases n) auto
  let ?t = "concat (map (\<lambda>y. CHR '','' # json_write y) ys) @ CHR '']'' # rest"
  have e: "number_end ?t" by (cases ys) (simp_all add: number_end_sep)
  from Cons.prems(2) n have l: "length (json_write y) \<le> m"
    and l2: "length (concat (map (\<lambda>y. CHR '','' # json_write y) ys)) < m" by simp_all
  from Cons.prems(1) [of y] have "reads_back y" by simp
  with l e have v: "read_value m (json_write y @ ?t) = Some (y, ?t)"
    unfolding reads_back_def by blast
  have r: "read_elements m ?t = Some (ys, rest)"
    by (rule Cons.IH [OF _ l2]) (simp add: Cons.prems(1))
  show ?case by (simp add: n json_ws_def v r)
qed

lemma read_key_quote: "read_key (quote k @ CHR '':'' # t) = Some (k, t)"
  by (simp add: read_key_def quote_def json_ws_def read_chars_quote)

definition member_text :: "string \<times> json \<Rightarrow> string" where
  "member_text p = quote (fst p) @ CHR '':'' # json_write (snd p)"

lemma read_members_write:
  assumes "\<And>p. p \<in> set ps \<Longrightarrow> reads_back (snd p)"
    and "length (concat (map (\<lambda>p. CHR '','' # member_text p) ps)) < n"
  shows "read_members n (concat (map (\<lambda>p. CHR '','' # member_text p) ps) @ CHR ''}'' # rest) =
           Some (ps, rest)"
  using assms
proof (induction ps arbitrary: n)
  case Nil
  then obtain m where "n = Suc m" by (cases n) auto
  then show ?case by (simp add: json_ws_def)
next
  case (Cons p ps)
  from Cons.prems(2) obtain m where n: "n = Suc m" by (cases n) auto
  let ?t = "concat (map (\<lambda>p. CHR '','' # member_text p) ps) @ CHR ''}'' # rest"
  have e: "number_end ?t" by (cases ps) (simp_all add: number_end_sep)
  from Cons.prems(2) n have l: "length (json_write (snd p)) \<le> m"
    and l2: "length (concat (map (\<lambda>p. CHR '','' # member_text p) ps)) < m"
    by (simp_all add: member_text_def)
  from Cons.prems(1) [of p] have "reads_back (snd p)" by simp
  with l e have v: "read_value m (json_write (snd p) @ ?t) = Some (snd p, ?t)"
    unfolding reads_back_def by blast
  have r: "read_members m ?t = Some (ps, rest)"
    by (rule Cons.IH [OF _ l2]) (simp add: Cons.prems(1))
  have k: "read_key (member_text p @ ?t) = Some (fst p, json_write (snd p) @ ?t)"
    using read_key_quote [of "fst p" "json_write (snd p) @ ?t"] by (simp add: member_text_def)
  show ?case using k by (simp add: n json_ws_def v r)
qed

lemma json_write_array:
  "json_write (JArray (x # xs)) =
     CHR ''['' # json_write x @ concat (map (\<lambda>y. CHR '','' # json_write y) xs) @ '']''"
  by (simp add: join_with_cons comp_def)

lemma json_write_object:
  "json_write (JObject (p # ps)) =
     CHR ''{'' # member_text p @ concat (map (\<lambda>p. CHR '','' # member_text p) ps) @ ''}''"
  by (simp add: join_with_cons member_text_def comp_def)

lemma not_ws_open:
  "\<not> json_ws (CHR ''['')" "\<not> json_ws (CHR ''{'')" "\<not> json_ws (CHR 0x22)"
  by (simp_all add: json_ws_def)

lemma reads_back_all: "reads_back v"
proof (induction v)
  case JNull
  show ?case unfolding reads_back_def
  proof (intro allI impI)
    fix n rest assume "length (json_write JNull) \<le> n"
    then obtain m where "n = Suc m" by (cases n) auto
    then show "read_value n (json_write JNull @ rest) = Some (JNull, rest)"
      by (simp add: json_ws_def)
  qed
next
  case (JBool b)
  show ?case unfolding reads_back_def
  proof (intro allI impI)
    fix n rest assume "length (json_write (JBool b)) \<le> n"
    then obtain m where "n = Suc m" by (cases n) (auto split: if_splits)
    then show "read_value n (json_write (JBool b) @ rest) = Some (JBool b, rest)"
      by (simp add: json_ws_def)
  qed
next
  case (JNumber i)
  show ?case unfolding reads_back_def
  proof (intro allI impI)
    fix n rest assume "length (json_write (JNumber i)) \<le> n" and e: "number_end rest"
    moreover have "write_number i \<noteq> []" using write_number_hd [of i] by auto
    ultimately obtain m where "n = Suc m" by (cases n) auto
    then show "read_value n (json_write (JNumber i) @ rest) = Some (JNumber i, rest)"
      using read_value_number [OF e] by simp
  qed
next
  case (JString s)
  show ?case unfolding reads_back_def
  proof (intro allI impI)
    fix n rest assume "length (json_write (JString s)) \<le> n"
    then obtain m where "n = Suc m" by (cases n) (auto simp: quote_def)
    then show "read_value n (json_write (JString s) @ rest) = Some (JString s, rest)"
      by (simp add: json_ws_def quote_def read_chars_quote)
  qed
next
  case (JArray xs)
  show ?case unfolding reads_back_def
  proof (intro allI impI)
    fix n rest assume l: "length (json_write (JArray xs)) \<le> n"
    then obtain m where n: "n = Suc m" by (cases n) auto
    show "read_value n (json_write (JArray xs) @ rest) = Some (JArray xs, rest)"
    proof (cases xs)
      case Nil
      then show ?thesis by (simp add: n json_ws_def)
    next
      case (Cons x ys)
      let ?t = "concat (map (\<lambda>y. CHR '','' # json_write y) ys) @ CHR '']'' # rest"
      from json_write_hd [of x] obtain c cs where
        w: "json_write x = c # cs" and c: "value_start c" by blast
      have e: "number_end ?t" by (cases ys) (simp_all add: number_end_sep)
      have l1: "length (json_write x) \<le> m"
        and l2: "length (concat (map (\<lambda>y. CHR '','' # json_write y) ys)) < m"
        using l unfolding Cons json_write_array n by simp_all
      have "reads_back x" using JArray Cons by simp
      with l1 e have v: "read_value m (json_write x @ ?t) = Some (x, ?t)"
        unfolding reads_back_def by blast
      have r: "read_elements m ?t = Some (ys, rest)"
        by (rule read_elements_write [OF _ l2]) (simp add: JArray Cons)
      from c have c': "\<not> json_ws c" "c \<noteq> CHR '']''" by (simp_all add: value_start_def)
      from v have v': "read_value m (c # cs @ ?t) = Some (x, ?t)" by (simp add: w)
      show ?thesis
        unfolding Cons json_write_array
        by (simp add: n not_ws_open w c' v' r)
    qed
  qed
next
  case (JObject ps)
  show ?case unfolding reads_back_def
  proof (intro allI impI)
    fix n rest assume l: "length (json_write (JObject ps)) \<le> n"
    then obtain m where n: "n = Suc m" by (cases n) auto
    show "read_value n (json_write (JObject ps) @ rest) = Some (JObject ps, rest)"
    proof (cases ps)
      case Nil
      then show ?thesis by (simp add: n json_ws_def)
    next
      case (Cons p qs)
      let ?t = "concat (map (\<lambda>p. CHR '','' # member_text p) qs) @ CHR ''}'' # rest"
      have e: "number_end ?t" by (cases qs) (simp_all add: number_end_sep)
      have l1: "length (json_write (snd p)) \<le> m"
        and l2: "length (concat (map (\<lambda>p. CHR '','' # member_text p) qs)) < m"
        using l unfolding Cons json_write_object n by (simp_all add: member_text_def)
      have rb: "\<And>q. q \<in> set ps \<Longrightarrow> reads_back (snd q)"
      proof -
        fix q assume "q \<in> set ps"
        moreover have "snd q \<in> Basic_BNFs.snds q" by (cases q) simp
        ultimately show "reads_back (snd q)" by (rule JObject)
      qed
      have "reads_back (snd p)" using rb Cons by simp
      with l1 e have v: "read_value m (json_write (snd p) @ ?t) = Some (snd p, ?t)"
        unfolding reads_back_def by blast
      have r: "read_members m ?t = Some (qs, rest)"
        by (rule read_members_write [OF _ l2]) (simp add: rb Cons)
      have k: "read_key (member_text p @ ?t) = Some (fst p, json_write (snd p) @ ?t)"
        using read_key_quote [of "fst p" "json_write (snd p) @ ?t"]
        by (simp add: member_text_def)
      obtain cs where m: "member_text p = CHR 0x22 # cs"
        by (simp add: member_text_def quote_def)
      from k have k': "read_key (CHR 0x22 # cs @ ?t) = Some (fst p, json_write (snd p) @ ?t)"
        by (simp add: m)
      show ?thesis
        unfolding Cons json_write_object
        by (simp add: n not_ws_open m k' v r)
    qed
  qed
qed

theorem json_read_write: "json_read (json_write v) = Some v"
proof -
  have "number_end []" by (simp add: number_end_def)
  with reads_back_all [of v, unfolded reads_back_def, rule_format,
      of "length (json_write v)" "[]"]
  have "read_value (length (json_write v)) (json_write v @ []) = Some (v, [])" by simp
  then show ?thesis by (simp add: json_read_def)
qed

lemma json_write_nonempty: "json_write v \<noteq> []"
  using json_write_hd [of v] by auto

section \<open>The entity store\<close>

lemma entity_read_unfold:
  "entity_read E st kind key =
     (case getItem st key of
        None \<Rightarrow> Inr None
      | Some v \<Rightarrow>
          if v = [] then Inr None
          else (case toObject E (new_entity E kind) (validateAndParseJson E v) of
                  Inl err \<Rightarrow> Inl err
                | Inr entity \<Rightarrow>
                    (case validates E kind key entity of
                       Inl err \<Rightarrow> Inl err
                     | Inr accepted \<Rightarrow> if accepted then Inr (Some entity) else Inr None)))"
  by (cases kind)
    (simp_all add: entity_read_def new_entity_def validates_def isEmpty_def Let_def
      getAccount_def getIdTokenCredential_def getAccessTokenCredential_def
      getRefreshTokenCredential_def getAppMetadata_def getServerTelemetry_def
      getThrottlingCache_def split: option.splits sum.splits)

lemma entity_write_unfold:
  "entity_write E st kind callerKey e =
     setItem st (written_key E kind callerKey e) (JSON_stringify E e)"
  by (cases kind)
    (simp_all add: entity_write_def written_key_def Let_def setAccount_def
      setIdTokenCredential_def setAccessTokenCredential_def setRefreshTokenCredential_def
      setAppMetadata_def setServerTelemetry_def setThrottlingCache_def)

lemma validateAndParseJson_None_iff:
  "validateAndParseJson E v = None \<longleftrightarrow>
     JSON_parse E v = None \<or>
     (\<exists>j. JSON_parse E v = Some j \<and> \<not> (truthy j \<and> typeof j = ''object''))"
  by (auto simp: validateAndParseJson_def split: option.splits)

lemma E1_parse_oops: "JSON_parse E1 ''{oops'' = None"
  by (simp add: E1_def json_read_def json_ws_def read_key_def)

lemma E1_parse_hasOwnProperty:
  \<open>JSON_parse E1 ''{"hasOwnProperty":1}'' = Some (JObject [(''hasOwnProperty'', JNumber 1)])\<close>
  by (simp add: E1_def json_read_def json_ws_def read_key_def read_number_def
      read_digits_def is_digit_def digit_val_def number_end_def unescape_def)

text \<open>
  Claim C5 as stated fails twice. No read tests the result of \<open>validateAndParseJson\<close>
  for \<open>null\<close>, so on a text that is not valid JSON the validation predicate is applied
  to the entity \<open>toObject\<close> builds from a new entity and \<open>null\<close>; where the constructor
  has created the fields the predicate looks for, the read returns that entity, not
  \<open>null\<close>. And nothing catches what the predicate throws: on the object
  \<^verbatim>\<open>{"hasOwnProperty":1}\<close>, which is a JSON object without the fields of an account,
  the read throws a \<open>TypeError\<close>.
\<close>

theorem malformed_entity_read_counterexample:
  \<open>getItem damaged_state ''server-telemetry-cid'' = Some ''{oops''
   \<and> JSON_parse E1 ''{oops'' = None
   \<and> getServerTelemetry E1 damaged_state ''server-telemetry-cid'' = Inr (Some telemetry0)
   \<and> getItem damaged_state ''uid.utid-login.example.com-common'' = Some ''{"hasOwnProperty":1}''
   \<and> JSON_parse E1 ''{"hasOwnProperty":1}'' = Some (JObject [(''hasOwnProperty'', JNumber 1)])
   \<and> getAccount E1 damaged_state ''uid.utid-login.example.com-common'' = Inl TypeError\<close>
proof -
  have a1: "getItem damaged_state ''server-telemetry-cid'' = Some ''{oops''"
    by (simp add: getItem_def storage_getItem_def damaged_state_def)
  have a2: "validateAndParseJson E1 ''{oops'' = None"
    by (simp add: validateAndParseJson_def E1_parse_oops)
  have a3: "getServerTelemetry E1 damaged_state ''server-telemetry-cid'' = Inr (Some telemetry0)"
    by (simp add: getServerTelemetry_def a1 a2 isEmpty_def)
      (simp add: E1_def E0_def telemetry0_def has_fields_def)
  have b1: \<open>getItem damaged_state ''uid.utid-login.example.com-common'' =
      Some ''{"hasOwnProperty":1}''\<close>
    by (simp add: getItem_def storage_getItem_def damaged_state_def)
  have b2: \<open>validateAndParseJson E1 ''{"hasOwnProperty":1}'' =
      Some (JObject [(''hasOwnProperty'', JNumber 1)])\<close>
    by (simp add: validateAndParseJson_def E1_parse_hasOwnProperty)
  have b3: "getAccount E1 damaged_state ''uid.utid-login.example.com-common'' = Inl TypeError"
    by (simp add: getAccount_def b1 b2 isEmpty_def)
      (simp add: E1_def E0_def has_fields_def)
  from a1 E1_parse_oops a3 b1 E1_parse_hasOwnProperty b3 show ?thesis by (intro conjI)
qed

text \<open>
  Claim C5, as amended. For every string stored under an entity key, and each of the
  seven kinds: if the string is empty the read returns \<open>null\<close>. If it is not valid JSON,
  or its parse result is not an object, the read does not propagate the parse failure
  but goes on with \<open>null\<close> for the parse result: it returns \<open>null\<close> exactly when the
  validation predicate of the kind rejects the entity that \<open>toObject\<close> builds from a
  new entity of the kind and \<open>null\<close>, and it returns that entity exactly when the
  predicate accepts it. If the string parses to an object and the predicate rejects the
  entity built from it, the read returns \<open>null\<close>. A read throws only what \<open>toObject\<close>
  or the validation predicate throws.
\<close>

theorem malformed_entity_read:
  assumes "getItem st key = Some v"
  shows "(v = [] \<longrightarrow> entity_read E st kind key = Inr None)
       \<and> (v \<noteq> [] \<and> (JSON_parse E v = None
                     \<or> (\<exists>j. JSON_parse E v = Some j \<and> \<not> (truthy j \<and> typeof j = ''object'')))
            \<longrightarrow> (entity_read E st kind key = Inr None \<longleftrightarrow>
                   (\<exists>entity. toObject E (new_entity E kind) None = Inr entity
                            \<and> validates E kind key entity = Inr False))
              \<and> (\<forall>entity. entity_read E st kind key = Inr (Some entity) \<longleftrightarrow>
                     toObject E (new_entity E kind) None = Inr entity
                     \<and> validates E kind key entity = Inr True))
       \<and> (\<forall>j entity. v \<noteq> [] \<and> JSON_parse E v = Some j \<and> truthy j \<and> typeof j = ''object''
                     \<and> toObject E (new_entity E kind) (Some j) = Inr entity
                     \<and> validates E kind key entity = Inr False
            \<longrightarrow> entity_read E st kind key = Inr None)
       \<and> (\<forall>err. entity_read E st kind key = Inl err \<longrightarrow>
              toObject E (new_entity E kind) (validateAndParseJson E v) = Inl err
              \<or> (\<exists>entity. toObject E (new_entity E kind) (validateAndParseJson E v) = Inr entity
                         \<and> validates E kind key entity = Inl err))"
proof (intro conjI)
  show "v = [] \<longrightarrow> entity_read E st kind key = Inr None"
    using assms by (simp add: entity_read_unfold)
next
  show "v \<noteq> [] \<and> (JSON_parse E v = None
                     \<or> (\<exists>j. JSON_parse E v = Some j \<and> \<not> (truthy j \<and> typeof j = ''object'')))
            \<longrightarrow> (entity_read E st kind key = Inr None \<longleftrightarrow>
                   (\<exists>entity. toObject E (new_entity E kind) None = Inr entity
                            \<and> validates E kind key entity = Inr False))
              \<and> (\<forall>entity. entity_read E st kind key = Inr (Some entity) \<longleftrightarrow>
                     toObject E (new_entity E kind) None = Inr entity
                     \<and> validates E kind key entity = Inr True)"
  proof
    assume a: "v \<noteq> [] \<and> (JSON_parse E v = None
                     \<or> (\<exists>j. JSON_parse E v = Some j \<and> \<not> (truthy j \<and> typeof j = ''object'')))"
    then have n: "validateAndParseJson E v = None"
      by (simp add: validateAndParseJson_None_iff)
    from a have ne: "v \<noteq> []" by simp
    show "(entity_read E st kind key = Inr None \<longleftrightarrow>
                   (\<exists>entity. toObject E (new_entity E kind) None = Inr entity
                            \<and> validates E kind key entity = Inr False))
              \<and> (\<forall>entity. entity_read E st kind key = Inr (Some entity) \<longleftrightarrow>
                     toObject E (new_entity E kind) None = Inr entity
                     \<and> validates E kind key entity = Inr True)"
      using assms ne
      by (auto simp: entity_read_unfold n split: sum.splits)
  qed
next
  show "\<forall>j entity. v \<noteq> [] \<and> JSON_parse E v = Some j \<and> truthy j \<and> typeof j = ''object''
                     \<and> toObject E (new_entity E kind) (Some j) = Inr entity
                     \<and> validates E kind key entity = Inr False
            \<longrightarrow> entity_read E st kind key = Inr None"
    using assms by (simp add: entity_read_unfold validateAndParseJson_def)
next
  show "\<forall>err. entity_read E st kind key = Inl err \<longrightarrow>
              toObject E (new_entity E kind) (validateAndParseJson E v) = Inl err
              \<or> (\<exists>entity. toObject E (new_entity E kind) (validateAndParseJson E v) = Inr entity
                         \<and> validates E kind key entity = Inl err)"
    using assms by (auto simp: entity_read_unfold split: sum.splits if_splits)
qed

lemma E0_new_account_rejected:
  "toObject E0 (new_entity E0 Account) None = Inr (JObject [])
   \<and> validates E0 Account key (JObject []) = Inr False"
  by (simp add: validates_def new_entity_def E0_def has_fields_def)

lemma E1_new_telemetry_accepted:
  "toObject E1 (new_entity E1 ServerTelemetry) None = Inr telemetry0
   \<and> validates E1 ServerTelemetry key telemetry0 = Inr True"
  by (simp add: validates_def new_entity_def E1_def E0_def has_fields_def telemetry0_def)

theorem malformed_entity_read_witness:
  \<open>getItem malformed_state ''a'' = Some ''{oops'' \<and> JSON_parse E0 ''{oops'' = None
   \<and> entity_read E0 malformed_state Account ''a'' = Inr None
   \<and> getItem malformed_state ''b'' = Some ''"abc"''
   \<and> JSON_parse E0 ''"abc"'' = Some (JString ''abc'')
   \<and> entity_read E0 malformed_state Account ''b'' = Inr None
   \<and> getItem malformed_state ''c'' = Some ''{}''
   \<and> JSON_parse E0 ''{}'' = Some (JObject [])
   \<and> entity_read E0 malformed_state Account ''c'' = Inr None
   \<and> getItem damaged_state ''server-telemetry-cid'' = Some ''{oops''
   \<and> JSON_parse E1 ''{oops'' = None
   \<and> entity_read E1 damaged_state ServerTelemetry ''server-telemetry-cid'' =
       Inr (Some telemetry0)\<close>
proof -
  have a1: "getItem malformed_state ''a'' = Some ''{oops''"
    by (simp add: getItem_def storage_getItem_def malformed_state_def)
  have a2: "JSON_parse E0 ''{oops'' = None"
    by (simp add: E0_def json_table_def account0_text_def telemetry0_text_def)
  from malformed_entity_read [OF a1, of E0 Account] a2
  have "entity_read E0 malformed_state Account ''a'' = Inr None \<longleftrightarrow>
      (\<exists>entity. toObject E0 (new_entity E0 Account) None = Inr entity
               \<and> validates E0 Account ''a'' entity = Inr False)" by simp
  with E0_new_account_rejected [of "''a''"]
  have a3: "entity_read E0 malformed_state Account ''a'' = Inr None" by blast
  have b1: \<open>getItem malformed_state ''b'' = Some ''"abc"''\<close>
    by (simp add: getItem_def storage_getItem_def malformed_state_def)
  have b2: \<open>JSON_parse E0 ''"abc"'' = Some (JString ''abc'')\<close>
    by (simp add: E0_def json_table_def account0_text_def telemetry0_text_def)
  from malformed_entity_read [OF b1, of E0 Account] b2
  have "entity_read E0 malformed_state Account ''b'' = Inr None \<longleftrightarrow>
      (\<exists>entity. toObject E0 (new_entity E0 Account) None = Inr entity
               \<and> validates E0 Account ''b'' entity = Inr False)" by simp
  with E0_new_account_rejected [of "''b''"]
  have b3: "entity_read E0 malformed_state Account ''b'' = Inr None" by blast
  have c1: "getItem malformed_state ''c'' = Some ''{}''"
    by (simp add: getItem_def storage_getItem_def malformed_state_def)
  have c2: "JSON_parse E0 ''{}'' = Some (JObject [])"
    by (simp add: E0_def json_table_def account0_text_def telemetry0_text_def)
  have c4: "toObject E0 (new_entity E0 Account) (Some (JObject [])) = Inr (JObject [])
      \<and> validates E0 Account ''c'' (JObject []) = Inr False"
    by (simp add: validates_def new_entity_def E0_def has_fields_def)
  from malformed_entity_read [OF c1, of E0 Account] c2 c4
  have c3: "entity_read E0 malformed_state Account ''c'' = Inr None" by simp
  have d1: "getItem damaged_state ''server-telemetry-cid'' = Some ''{oops''"
    by (simp add: getItem_def storage_getItem_def damaged_state_def)
  from malformed_entity_read [OF d1, of E1 ServerTelemetry] E1_parse_oops
  have "entity_read E1 damaged_state ServerTelemetry ''server-telemetry-cid'' =
        Inr (Some telemetry0) \<longleftrightarrow>
      toObject E1 (new_entity E1 ServerTelemetry) None = Inr telemetry0
      \<and> validates E1 ServerTelemetry ''server-telemetry-cid'' telemetry0 = Inr True" by simp
  with E1_new_telemetry_accepted [of "''server-telemetry-cid''"]
  have d3: "entity_read E1 damaged_state ServerTelemetry ''server-telemetry-cid'' =
        Inr (Some telemetry0)" by blast
  from a1 a2 a3 b1 b2 b3 c1 c2 c3 d1 E1_parse_oops d3 show ?thesis by (intro conjI)
qed

text \<open>
  Claim C4, as amended. A write of an account, an id token, an access token, a refresh
  token or an app metadata entity takes no key: the item is set under the key the
  entity's own key generator returns, and nothing else in the storage changes. A write
  of a server telemetry or a throttling entity sets the item under the key the caller
  passes.
\<close>

theorem entity_write_key:
  "getItem (entity_write E st kind callerKey e) (written_key E kind callerKey e) =
     Some (JSON_stringify E e)
   \<and> (\<forall>k. k \<noteq> written_key E kind callerKey e \<longrightarrow>
          getItem (entity_write E st kind callerKey e) k = getItem st k)
   \<and> (\<not> takes_caller_key kind \<longrightarrow>
          written_key E kind callerKey e = written_key E kind otherKey e
          \<and> entity_write E st kind callerKey e = entity_write E st kind otherKey e)
   \<and> (takes_caller_key kind \<longrightarrow> written_key E kind callerKey e = callerKey)"
proof -
  have "\<not> takes_caller_key kind \<Longrightarrow>
          written_key E kind callerKey e = written_key E kind otherKey e"
    by (cases kind) (simp_all add: takes_caller_key_def written_key_def)
  moreover have "takes_caller_key kind \<Longrightarrow> written_key E kind callerKey e = callerKey"
    by (cases kind) (simp_all add: takes_caller_key_def written_key_def)
  ultimately show ?thesis
    by (simp add: entity_write_unfold getItem_setItem)
qed

lemma getItem_empty_state: "getItem empty_state k = None"
  by (simp add: getItem_def storage_getItem_def empty_state_def)

lemma E0_account_key:
  "written_key E0 Account callerKey account0 = ''uid.utid-login.example.com-common''"
  by (simp add: written_key_def E0_def account0_def field_text_def)

theorem entity_write_key_witness:
  "\<not> takes_caller_key Account
   \<and> written_key E0 Account ''ignored'' account0 = ''uid.utid-login.example.com-common''
   \<and> getItem (entity_write E0 empty_state Account ''ignored'' account0)
        ''uid.utid-login.example.com-common'' = Some account0_text
   \<and> getItem (entity_write E0 empty_state Account ''ignored'' account0) ''ignored'' = None
   \<and> takes_caller_key ServerTelemetry
   \<and> written_key E0 ServerTelemetry ''server-telemetry-cid'' telemetry0 = ''server-telemetry-cid''"
proof -
  note t = entity_write_key [of E0 empty_state Account "''ignored''" account0 "''other''"]
  note u = entity_write_key [of E0 empty_state ServerTelemetry "''server-telemetry-cid''"
      telemetry0 "''other''"]
  have n: "\<not> takes_caller_key Account" by (simp add: takes_caller_key_def)
  have y: "takes_caller_key ServerTelemetry" by (simp add: takes_caller_key_def)
  have s: "JSON_stringify E0 account0 = account0_text"
    by (simp add: E0_def json_table_def)
  have g: "getItem (entity_write E0 empty_state Account ''ignored'' account0)
        ''uid.utid-login.example.com-common'' = Some account0_text"
    using t [THEN conjunct1] s by (simp add: E0_account_key)
  have "''ignored'' \<noteq> written_key E0 Account ''ignored'' account0"
    by (simp add: E0_account_key)
  with t have "getItem (entity_write E0 empty_state Account ''ignored'' account0) ''ignored'' =
      getItem empty_state ''ignored''" by blast
  then have f: "getItem (entity_write E0 empty_state Account ''ignored'' account0) ''ignored'' = None"
    by (simp add: getItem_def storage_getItem_def empty_state_def)
  from u y have w: "written_key E0 ServerTelemetry ''server-telemetry-cid'' telemetry0 =
      ''server-telemetry-cid''" by blast
  from n E0_account_key [of "''ignored''"] g f y w show ?thesis by (intro conjI)
qed

text \<open>
  The claim as stated fails for \<open>setServerTelemetry\<close> and \<open>setThrottlingCache\<close>: the same
  entity is stored under whatever key the caller passes.
\<close>

theorem entity_write_caller_key_counterexample:
  "getKeys (setServerTelemetry E0 empty_state ''server-telemetry-cid'' telemetry0) =
     [''server-telemetry-cid'']
   \<and> getKeys (setServerTelemetry E0 empty_state ''chosen.by.the.caller'' telemetry0) =
     [''chosen.by.the.caller'']
   \<and> getKeys (setThrottlingCache E0 empty_state ''chosen.by.the.caller'' telemetry0) =
     [''chosen.by.the.caller'']"
  by (simp add: setServerTelemetry_def setThrottlingCache_def setItem_def storage_setItem_def
      getKeys_def storage_getKeys_def empty_state_def)

lemma update_fresh:
  "k \<notin> fst ` set al \<Longrightarrow> AList.update k v al = al @ [(k, v)]"
  by (induction al) auto

lemma assign_fresh:
  "distinct (map fst qs) \<Longrightarrow> fst ` set qs \<inter> fst ` set al = {} \<Longrightarrow>
     foldl (\<lambda>obj (k, v). AList.update k v obj) al qs = al @ qs"
proof (induction qs arbitrary: al)
  case Nil
  show ?case by simp
next
  case (Cons q qs)
  obtain k v where q: "q = (k, v)" by (cases q)
  from Cons.prems q have f: "k \<notin> fst ` set al" by auto
  have "foldl (\<lambda>obj (k, v). AList.update k v obj) (al @ [(k, v)]) qs = (al @ [(k, v)]) @ qs"
    using Cons.prems q by (intro Cons.IH) auto
  then show ?case by (simp add: q update_fresh [OF f])
qed

lemma update_behind:
  "k \<notin> fst ` set pre \<Longrightarrow>
     AList.update k v (pre @ (k, w) # al) = pre @ (k, v) # al"
  by (induction pre) auto

lemma assign_same_keys:
  "map fst ns = map fst qs \<Longrightarrow> distinct (map fst qs) \<Longrightarrow>
   fst ` set pre \<inter> fst ` set qs = {} \<Longrightarrow>
     foldl (\<lambda>obj (k, v). AList.update k v obj) (pre @ ns) qs = pre @ qs"
proof (induction qs arbitrary: ns pre)
  case Nil
  then show ?case by simp
next
  case (Cons q qs)
  obtain k v where q: "q = (k, v)" by (cases q)
  from Cons.prems(1) q obtain w ns' where ns: "ns = (k, w) # ns'"
    and ks: "map fst ns' = map fst qs" by (cases ns) auto
  from Cons.prems(3) q have f: "k \<notin> fst ` set pre" by auto
  have "foldl (\<lambda>obj (k, v). AList.update k v obj) ((pre @ [(k, v)]) @ ns') qs =
          (pre @ [(k, v)]) @ qs"
    using Cons.prems q ks by (intro Cons.IH) auto
  then show ?case by (simp add: q ns update_behind [OF f])
qed

lemma assign_own_properties:
  assumes "prefix (map fst ns) (map fst ps)" and "distinct (map fst ps)"
  shows "foldl (\<lambda>obj (k, v). AList.update k v obj) ns ps = ps"
proof -
  let ?m = "length ns"
  have ps: "ps = take ?m ps @ drop ?m ps" by simp
  from assms(1) have k: "map fst ns = map fst (take ?m ps)"
    by (auto simp: prefix_def take_map [symmetric])
  from assms(2) have d: "distinct (map fst (take ?m ps) @ map fst (drop ?m ps))"
    by (simp add: map_append [symmetric] del: map_append)
  have 1: "foldl (\<lambda>obj (k, v). AList.update k v obj) ns (take ?m ps) = take ?m ps"
    using assign_same_keys [of ns "take ?m ps" "[]"] k d by simp
  have 2: "foldl (\<lambda>obj (k, v). AList.update k v obj) (take ?m ps) (drop ?m ps) =
             take ?m ps @ drop ?m ps"
    using d by (intro assign_fresh) auto
  have "foldl (\<lambda>obj (k, v). AList.update k v obj) ns (take ?m ps @ drop ?m ps) = ps"
    unfolding foldl_append 1 2 by simp
  then show ?thesis by simp
qed

lemma valid_entity_object:
  assumes "valid_entity E kind key e"
  obtains ns ps where "new_entity E kind = JObject ns" and "e = JObject ps"
    and "prefix (map fst ns) (map fst ps)" and "distinct (map fst ps)"
    and "json_safe e" and "validates E kind key e = Inr True"
proof -
  from assms have s: "json_safe e" and v: "validates E kind key e = Inr True"
    by (simp_all add: valid_entity_def)
  from assms obtain ns ps where n: "new_entity E kind = JObject ns" and e: "e = JObject ps"
    and p: "prefix (map fst ns) (map fst ps)"
    by (auto simp: valid_entity_def split: json.splits)
  from s e have d: "distinct (map fst ps)" by simp
  from n e p d s v show ?thesis by (rule that)
qed

lemma getItem_entity_writes:
  "\<forall>w \<in> set ws. written_key E (fst w) (fst (snd w)) (snd (snd w)) \<noteq> k \<Longrightarrow>
     getItem (entity_writes E st ws) k = getItem st k"
proof (induction ws arbitrary: st)
  case Nil
  show ?case by (simp add: entity_writes_def)
next
  case (Cons w ws)
  from Cons.prems have "getItem (entity_writes E
      (entity_write E st (fst w) (fst (snd w)) (snd (snd w))) ws) k =
      getItem (entity_write E st (fst w) (fst (snd w)) (snd (snd w))) k"
    by (intro Cons.IH) simp
  with Cons.prems show ?case
    by (auto simp: entity_writes_def entity_write_unfold getItem_setItem)
qed

text \<open>
  Claim C1, as amended. For every valid cache entity of any of the seven kinds, a write
  followed by a read under the key the write stored it under returns the entity,
  whatever the storage held before and whatever entities are written under other keys
  afterwards. For an account, an id token, an access token, a refresh token and an app
  metadata entity that key is the one derived from the entity by its key generator; for
  a server telemetry and a throttling entity it is the key the caller passed to the
  write. \<^verbatim>\<open>JSON.stringify\<close>, \<^verbatim>\<open>JSON.parse\<close> and \<open>toObject\<close>, which are not under
  src/, are taken to be the platform's: inverse on JSON-safe values, and the assignment
  of the properties.
\<close>

theorem entity_roundtrip:
  assumes "json_roundtrip E" and "toObject_assigns E"
    and "valid_entity E kind (written_key E kind callerKey e) e"
  shows "entity_read E (entity_write E st kind callerKey e) kind
           (written_key E kind callerKey e) = Inr (Some e)
       \<and> ((\<forall>w \<in> set ws. written_key E (fst w) (fst (snd w)) (snd (snd w)) \<noteq>
                          written_key E kind callerKey e) \<longrightarrow>
            entity_read E (entity_writes E (entity_write E st kind callerKey e) ws) kind
              (written_key E kind callerKey e) = Inr (Some e))"
proof -
  let ?k = "written_key E kind callerKey e"
  from assms(3) obtain ns ps where n: "new_entity E kind = JObject ns" and e: "e = JObject ps"
    and p: "prefix (map fst ns) (map fst ps)" and d: "distinct (map fst ps)"
    and s: "json_safe e" and v: "validates E kind ?k e = Inr True"
    by (rule valid_entity_object)
  from assms(1) s have ne: "JSON_stringify E e \<noteq> []"
    and rd: "JSON_parse E (JSON_stringify E e) = Some e"
    by (simp_all add: json_roundtrip_def)
  from rd e have vp: "validateAndParseJson E (JSON_stringify E e) = Some e"
    by (simp add: validateAndParseJson_def)
  from assms(2) s e
  have "toObject E (JObject ns) (Some (JObject ps)) =
          Inr (JObject (foldl (\<lambda>obj (k, v). AList.update k v obj) ns ps))"
    unfolding toObject_assigns_def by blast
  with n e have o: "toObject E (new_entity E kind) (Some e) = Inr e"
    by (simp add: assign_own_properties [OF p d])
  have r: "\<And>s. getItem s ?k = Some (JSON_stringify E e) \<Longrightarrow>
             entity_read E s kind ?k = Inr (Some e)"
    using ne vp o v by (simp add: entity_read_unfold)
  have g: "getItem (entity_write E st kind callerKey e) ?k = Some (JSON_stringify E e)"
    by (simp add: entity_write_unfold getItem_setItem)
  have 1: "entity_read E (entity_write E st kind callerKey e) kind ?k = Inr (Some e)"
    using g by (rule r)
  have 2: "(\<forall>w \<in> set ws. written_key E (fst w) (fst (snd w)) (snd (snd w)) \<noteq> ?k) \<longrightarrow>
            entity_read E (entity_writes E (entity_write E st kind callerKey e) ws) kind ?k =
              Inr (Some e)"
  proof
    assume "\<forall>w \<in> set ws. written_key E (fst w) (fst (snd w)) (snd (snd w)) \<noteq> ?k"
    then have "getItem (entity_writes E (entity_write E st kind callerKey e) ws) ?k =
        getItem (entity_write E st kind callerKey e) ?k"
      by (rule getItem_entity_writes)
    with g show "entity_read E (entity_writes E (entity_write E st kind callerKey e) ws)
        kind ?k = Inr (Some e)"
      by (intro r) simp
  qed
  from 1 2 show ?thesis by (rule conjI)
qed

lemma E1_json_roundtrip: "json_roundtrip E1"
  by (simp add: json_roundtrip_def E1_def json_read_write json_write_nonempty)

lemma E1_toObject_assigns: "toObject_assigns E1"
  by (simp add: toObject_assigns_def E1_def E0_def)

lemma plain_key_fields:
  "plain_key ''failedRequests''" "plain_key ''errors''" "plain_key ''cacheHits''"
  "plain_key ''homeAccountId''" "plain_key ''environment''" "plain_key ''realm''"
  "plain_key ''localAccountId''" "plain_key ''username''" "plain_key ''authorityType''"
  by (simp_all add: plain_key_def is_digit_def)

lemma E1_telemetry1_valid: "valid_entity E1 ServerTelemetry key telemetry1"
  by (simp add: valid_entity_def telemetry1_def plain_key_fields)
    (simp add: new_entity_def validates_def E1_def E0_def telemetry0_def has_fields_def)

lemma E1_account0_valid: "valid_entity E1 Account key account0"
  by (simp add: valid_entity_def account0_def plain_key_fields)
    (simp add: new_entity_def validates_def E1_def E0_def has_fields_def)

lemma E1_account_key:
  "written_key E1 Account callerKey account0 = ''uid.utid-login.example.com-common''"
  by (simp add: written_key_def E1_def E0_def account0_def field_text_def)

lemma E1_later_writes_keys:
  "map (\<lambda>w. written_key E1 (fst w) (fst (snd w)) (snd (snd w))) later_writes =
     [''uid.utid-login.example.com-common'', ''throttling.cid'']"
  by (simp add: later_writes_def E1_account_key) (simp add: written_key_def)

lemma getKeys_entity_write:
  "getKeys (entity_write E st kind callerKey e) =
     (if written_key E kind callerKey e \<in> set (getKeys st) then getKeys st
      else getKeys st @ [written_key E kind callerKey e])"
  by (simp add: entity_write_unfold getKeys_def storage_getKeys_def browserStorage_setItem
      update_keys)

theorem entity_roundtrip_witness:
  "json_roundtrip E1 \<and> toObject_assigns E1
   \<and> valid_entity E1 ServerTelemetry ''server-telemetry-cid'' telemetry1
   \<and> getItem clear_state ''server-telemetry-cid'' = Some ''{}''
   \<and> entity_read E1
        (entity_write E1 clear_state ServerTelemetry ''server-telemetry-cid'' telemetry1)
        ServerTelemetry ''server-telemetry-cid'' = Inr (Some telemetry1)
   \<and> getKeys (entity_writes E1
        (entity_write E1 clear_state ServerTelemetry ''server-telemetry-cid'' telemetry1)
        later_writes) =
       [''msal.cid.request.params'', ''settings.theme'', ''cid.idtoken'',
        ''server-telemetry-cid'', ''uid.utid-login.example.com-common'', ''throttling.cid'']
   \<and> entity_read E1
        (entity_writes E1
           (entity_write E1 clear_state ServerTelemetry ''server-telemetry-cid'' telemetry1)
           later_writes)
        ServerTelemetry ''server-telemetry-cid'' = Inr (Some telemetry1)
   \<and> valid_entity E1 Account ''uid.utid-login.example.com-common'' account0
   \<and> entity_read E1
        (entity_writes E1 (entity_write E1 damaged_state Account [] account0)
           [(ServerTelemetry, ''server-telemetry-cid'', telemetry1)])
        Account ''uid.utid-login.example.com-common'' = Inr (Some account0)"
proof -
  have k: "written_key E1 ServerTelemetry ''server-telemetry-cid'' telemetry1 =
      ''server-telemetry-cid''" by (simp add: written_key_def)
  have v1: "valid_entity E1 ServerTelemetry
      (written_key E1 ServerTelemetry ''server-telemetry-cid'' telemetry1) telemetry1"
    by (rule E1_telemetry1_valid)
  have v2: "valid_entity E1 Account (written_key E1 Account [] account0) account0"
    by (rule E1_account0_valid)
  have g: "getItem clear_state ''server-telemetry-cid'' = Some ''{}''"
    by (simp add: getItem_def storage_getItem_def clear_state_def)
  have o1: "\<forall>w \<in> set later_writes.
      written_key E1 (fst w) (fst (snd w)) (snd (snd w)) \<noteq>
      written_key E1 ServerTelemetry ''server-telemetry-cid'' telemetry1"
    using E1_later_writes_keys by (simp add: k later_writes_def)
  have o2: "\<forall>w \<in> set [(ServerTelemetry, ''server-telemetry-cid'', telemetry1)].
      written_key E1 (fst w) (fst (snd w)) (snd (snd w)) \<noteq>
      written_key E1 Account [] account0"
    by (simp add: k E1_account_key)
  note t = entity_roundtrip [OF E1_json_roundtrip E1_toObject_assigns v1,
      where st = clear_state and ws = later_writes]
  note u = entity_roundtrip [OF E1_json_roundtrip E1_toObject_assigns v2,
      where st = damaged_state
        and ws = "[(ServerTelemetry, ''server-telemetry-cid'', telemetry1)]"]
  from t have r1: "entity_read E1
        (entity_write E1 clear_state ServerTelemetry ''server-telemetry-cid'' telemetry1)
        ServerTelemetry ''server-telemetry-cid'' = Inr (Some telemetry1)"
    by (simp add: k)
  from t o1 have "entity_read E1
        (entity_writes E1
           (entity_write E1 clear_state ServerTelemetry ''server-telemetry-cid'' telemetry1)
           later_writes)
        ServerTelemetry
        (written_key E1 ServerTelemetry ''server-telemetry-cid'' telemetry1) =
        Inr (Some telemetry1)" by blast
  then have r2: "entity_read E1
        (entity_writes E1
           (entity_write E1 clear_state ServerTelemetry ''server-telemetry-cid'' telemetry1)
           later_writes)
        ServerTelemetry ''server-telemetry-cid'' = Inr (Some telemetry1)"
    by (simp only: k)
  from u o2 have "entity_read E1
        (entity_writes E1 (entity_write E1 damaged_state Account [] account0)
           [(ServerTelemetry, ''server-telemetry-cid'', telemetry1)])
        Account (written_key E1 Account [] account0) = Inr (Some account0)" by blast
  then have r3: "entity_read E1
        (entity_writes E1 (entity_write E1 damaged_state Account [] account0)
           [(ServerTelemetry, ''server-telemetry-cid'', telemetry1)])
        Account ''uid.utid-login.example.com-common'' = Inr (Some account0)"
    by (simp only: E1_account_key)
  have ks: "getKeys (entity_writes E1
        (entity_write E1 clear_state ServerTelemetry ''server-telemetry-cid'' telemetry1)
        later_writes) =
       [''msal.cid.request.params'', ''settings.theme'', ''cid.idtoken'',
        ''server-telemetry-cid'', ''uid.utid-login.example.com-common'', ''throttling.cid'']"
    by (simp add: entity_writes_def later_writes_def getKeys_entity_write k E1_account_key)
      (simp add: written_key_def getKeys_def storage_getKeys_def clear_state_def)
  from E1_json_roundtrip E1_toObject_assigns E1_telemetry1_valid g r1 ks r2
    E1_account0_valid r3
  show ?thesis by (intro conjI)
qed

lemma E1_telemetry1_read_back:
  "getServerTelemetry E1 (setServerTelemetry E1 st k telemetry1) k = Inr (Some telemetry1)"
proof -
  have g: "getItem (setServerTelemetry E1 st k telemetry1) k = Some (json_write telemetry1)"
    by (simp add: setServerTelemetry_def getItem_setItem E1_def)
  have p: "validateAndParseJson E1 (json_write telemetry1) = Some telemetry1"
    by (simp add: validateAndParseJson_def E1_def json_read_write) (simp add: telemetry1_def)
  have o: "toObject E1 (new_ServerTelemetryEntity E1) (Some telemetry1) = Inr telemetry1"
    by (simp add: E1_def E0_def telemetry0_def telemetry1_def)
  have v: "isServerTelemetryEntity E1 k telemetry1 = Inr True"
    by (simp add: E1_def E0_def telemetry1_def has_fields_def)
  show ?thesis
    by (simp add: getServerTelemetry_def g isEmpty_def json_write_nonempty p o v)
qed

text \<open>
  The claim as stated fails for the two kinds whose write takes the key from the caller:
  each write of a server telemetry entity is read back under the key the caller passed,
  and no key derived from the entity alone is the one under which both writes of the
  same entity can be read back.
\<close>

theorem entity_roundtrip_derived_key_counterexample:
  "getServerTelemetry E1
     (setServerTelemetry E1 empty_state ''server-telemetry-a'' telemetry1)
     ''server-telemetry-a'' = Inr (Some telemetry1)
   \<and> getServerTelemetry E1
       (setServerTelemetry E1 empty_state ''server-telemetry-b'' telemetry1)
       ''server-telemetry-b'' = Inr (Some telemetry1)
   \<and> \<not> (\<exists>key.
        getServerTelemetry E1
          (setServerTelemetry E1 empty_state ''server-telemetry-a'' telemetry1) key =
          Inr (Some telemetry1)
      \<and> getServerTelemetry E1
          (setServerTelemetry E1 empty_state ''server-telemetry-b'' telemetry1) key =
          Inr (Some telemetry1))"
proof (intro conjI)
  show "getServerTelemetry E1
     (setServerTelemetry E1 empty_state ''server-telemetry-a'' telemetry1)
     ''server-telemetry-a'' = Inr (Some telemetry1)"
    by (rule E1_telemetry1_read_back)
next
  show "getServerTelemetry E1
       (setServerTelemetry E1 empty_state ''server-telemetry-b'' telemetry1)
       ''server-telemetry-b'' = Inr (Some telemetry1)"
    by (rule E1_telemetry1_read_back)
next
  show "\<not> (\<exists>key.
        getServerTelemetry E1
          (setServerTelemetry E1 empty_state ''server-telemetry-a'' telemetry1) key =
          Inr (Some telemetry1)
      \<and> getServerTelemetry E1
          (setServerTelemetry E1 empty_state ''server-telemetry-b'' telemetry1) key =
          Inr (Some telemetry1))"
  proof
    assume "\<exists>key.
        getServerTelemetry E1
          (setServerTelemetry E1 empty_state ''server-telemetry-a'' telemetry1) key =
          Inr (Some telemetry1)
      \<and> getServerTelemetry E1
          (setServerTelemetry E1 empty_state ''server-telemetry-b'' telemetry1) key =
          Inr (Some telemetry1)"
    then obtain key where
      a: "getServerTelemetry E1
            (setServerTelemetry E1 empty_state ''server-telemetry-a'' telemetry1) key =
            Inr (Some telemetry1)" and
      b: "getServerTelemetry E1
            (setServerTelemetry E1 empty_state ''server-telemetry-b'' telemetry1) key =
            Inr (Some telemetry1)" by blast
    have "\<And>k. key \<noteq> k \<Longrightarrow>
        getServerTelemetry E1 (setServerTelemetry E1 empty_state k telemetry1) key = Inr None"
      by (simp add: getServerTelemetry_def setServerTelemetry_def getItem_setItem
          getItem_empty_state)
    with a b have "key = ''server-telemetry-a''" "key = ''server-telemetry-b''"
      by fastforce+
    then show False by simp
  qed
qed

section \<open>Sweeps over the keys\<close>

lemma indexOf_ge: "- 1 \<le> indexOf s sub"
  by (induction s) (auto simp: Let_def)

lemma indexOf_sublist: "indexOf s sub \<noteq> - 1 \<longleftrightarrow> sublist sub s"
proof (induction s)
  case Nil
  then show ?case by simp
next
  case (Cons c cs)
  have "indexOf cs sub + 1 \<noteq> - 1" using indexOf_ge [of cs sub] by arith
  with Cons show ?case
    by (auto simp: Let_def sublist_Cons_right)
qed

lemma indexOf_append_suffix: "indexOf (pre @ i) i \<noteq> - 1"
  by (simp add: indexOf_sublist)

lemma delete_as_filter: "AList.delete k al = filter (\<lambda>p. fst p \<noteq> k) al"
  by (induction al) auto

lemma map_of_filter_fst:
  "map_of (filter (\<lambda>p. Q (fst p)) al) k = (if Q k then map_of al k else None)"
  by (induction al) auto

lemma keys_filter_fst:
  "fst ` set (filter (\<lambda>p. Q (fst p)) al) = {k \<in> fst ` set al. Q k}"
  by (induction al) auto

lemma filter_absent_key:
  "k \<notin> fst ` set al \<Longrightarrow> filter (\<lambda>p. fst p \<noteq> k) al = al"
  by (induction al) auto

lemma browserStorage_clear_step:
  "browserStorage (clear_step E st key) =
     filter (\<lambda>p. \<not> (fst p = key \<and>
                 (indexOf (fst p) (CACHE_PREFIX E) \<noteq> - 1 \<or> indexOf (fst p) (clientId E) \<noteq> - 1)))
       (browserStorage st)"
proof (cases "indexOf key (CACHE_PREFIX E) \<noteq> - 1 \<or> indexOf key (clientId E) \<noteq> - 1")
  case False
  then have "clear_step E st key = st" by (auto simp: clear_step_def)
  moreover from False have
    "(\<lambda>p. \<not> (fst p = key \<and>
        (indexOf (fst p) (CACHE_PREFIX E) \<noteq> - 1 \<or> indexOf (fst p) (clientId E) \<noteq> - 1))) =
     (\<lambda>p :: string \<times> string. True)" by auto
  ultimately show ?thesis by simp
next
  case True
  then have f: "(\<lambda>p :: string \<times> string. \<not> (fst p = key \<and>
        (indexOf (fst p) (CACHE_PREFIX E) \<noteq> - 1 \<or> indexOf (fst p) (clientId E) \<noteq> - 1))) =
     (\<lambda>p. fst p \<noteq> key)" by auto
  show ?thesis
  proof (cases "storage_containsKey (browserStorage st) key")
    case True
    with \<open>indexOf key (CACHE_PREFIX E) \<noteq> - 1 \<or> indexOf key (clientId E) \<noteq> - 1\<close>
    have "clear_step E st key = removeItem E st key" by (simp add: clear_step_def)
    then show ?thesis
      unfolding f by (simp add: browserStorage_removeItem delete_as_filter)
  next
    case False
    then have "clear_step E st key = st" by (simp add: clear_step_def)
    moreover from False have "filter (\<lambda>p. fst p \<noteq> key) (browserStorage st) = browserStorage st"
      by (intro filter_absent_key) (simp add: storage_containsKey_def)
    ultimately show ?thesis unfolding f by simp
  qed
qed

lemma browserStorage_clear_loop:
  "browserStorage (foldl (clear_step E) st ks) =
     filter (\<lambda>p. \<not> (fst p \<in> set ks \<and>
                 (indexOf (fst p) (CACHE_PREFIX E) \<noteq> - 1 \<or> indexOf (fst p) (clientId E) \<noteq> - 1)))
       (browserStorage st)"
proof (induction ks arbitrary: st)
  case Nil
  then show ?case by simp
next
  case (Cons k ks)
  show ?case
    by (simp add: Cons.IH browserStorage_clear_step) (rule filter_cong, auto)
qed

text \<open>
  Claim C10. \<open>clear\<close> runs the two inherited removals and then removes the keys that
  contain the cache prefix or the client id, and only those: on a key that contains
  neither, the storage after \<open>clear\<close> is the storage after the two removals, so a
  key they leave alone is unchanged; and no key that contains the prefix or the client
  id is left.
\<close>

theorem clear_frame:
  assumes "indexOf key (CACHE_PREFIX E) = - 1" and "indexOf key (clientId E) = - 1"
  shows "getItem (clear E st) key = getItem (removeAppMetadata E (removeAllAccounts E st)) key
       \<and> (getItem (removeAppMetadata E (removeAllAccounts E st)) key = getItem st key \<longrightarrow>
            getItem (clear E st) key = getItem st key)
       \<and> (\<forall>k \<in> set (getKeys (clear E st)).
            indexOf k (CACHE_PREFIX E) = - 1 \<and> indexOf k (clientId E) = - 1)"
proof -
  let ?st2 = "removeAppMetadata E (removeAllAccounts E st)"
  define Q where "Q k \<longleftrightarrow> \<not> (k \<in> set (map fst (browserStorage ?st2)) \<and>
      (indexOf k (CACHE_PREFIX E) \<noteq> - 1 \<or> indexOf k (clientId E) \<noteq> - 1))" for k
  have b: "browserStorage (clear E st) = filter (\<lambda>p. Q (fst p)) (browserStorage ?st2)"
    by (simp add: clear_def Let_def browserStorage_clear_loop storage_getKeys_def Q_def)
  have "Q key" using assms by (simp add: Q_def)
  then have 1: "getItem (clear E st) key = getItem ?st2 key"
    by (simp add: getItem_map_of b map_of_filter_fst)
  have "fst ` set (browserStorage (clear E st)) = {k \<in> fst ` set (browserStorage ?st2). Q k}"
    unfolding b by (rule keys_filter_fst)
  then have 3: "\<forall>k \<in> set (getKeys (clear E st)).
            indexOf k (CACHE_PREFIX E) = - 1 \<and> indexOf k (clientId E) = - 1"
    by (auto simp: getKeys_map_fst Q_def)
  from 1 3 show ?thesis by simp
qed

theorem clear_frame_witness:
  "indexOf ''settings.theme'' (CACHE_PREFIX E0) = - 1
   \<and> indexOf ''settings.theme'' (clientId E0) = - 1
   \<and> getItem clear_state ''settings.theme'' = Some ''dark''
   \<and> getItem (clear E0 clear_state) ''settings.theme'' = Some ''dark''
   \<and> getKeys (clear E0 clear_state) = [''settings.theme'']"
proof -
  have h1: "indexOf ''settings.theme'' (CACHE_PREFIX E0) = - 1" by (simp add: E0_def)
  have h2: "indexOf ''settings.theme'' (clientId E0) = - 1" by (simp add: E0_def)
  have g: "getItem clear_state ''settings.theme'' = Some ''dark''"
    by (simp add: getItem_def storage_getItem_def clear_state_def)
  have r: "removeAppMetadata E0 (removeAllAccounts E0 clear_state) = clear_state"
    by (simp add: E0_def)
  from clear_frame [OF h1 h2, of clear_state]
  have "getItem (clear E0 clear_state) ''settings.theme'' =
      getItem (removeAppMetadata E0 (removeAllAccounts E0 clear_state)) ''settings.theme''"
    by (rule conjunct1)
  with r g have c: "getItem (clear E0 clear_state) ''settings.theme'' = Some ''dark''" by simp
  have k: "getKeys (clear E0 clear_state) = [''settings.theme'']"
    by (simp add: getKeys_map_fst clear_def Let_def r browserStorage_clear_loop
        storage_getKeys_def) (simp add: clear_state_def E0_def)
  from h1 h2 g c k show ?thesis by (intro conjI)
qed

section \<open>The end of a request\<close>

lemma generate_keys_of_id:
  assumes "parseRequestState E s = Inr i"
  shows "generateStateKey E s = Inr (request_key E REQUEST_STATE i)"
    and "generateNonceKey E s = Inr (request_key E NONCE_IDTOKEN i)"
    and "generateAuthorityKey E s = Inr (request_key E AUTHORITY i)"
  using assms
  by (simp_all add: generateStateKey_def generateNonceKey_def generateAuthorityKey_def
      request_key_def)

lemma request_key_inj:
  assumes "json_grammar E" and "CACHE_PREFIX E = ''msal''"
    and "b = REQUEST_STATE \<or> b = NONCE_IDTOKEN \<or> b = AUTHORITY"
    and "b' = REQUEST_STATE \<or> b' = NONCE_IDTOKEN \<or> b' = AUTHORITY"
    and "request_key E b i = request_key E b' i'"
  shows "b = b' \<and> i = i'"
  using assms(5) unfolding request_key_def by (rule temp_key_inj [OF assms(1-4)])

lemma request_key_contains_id:
  assumes "json_grammar E" and "CACHE_PREFIX E = ''msal''"
    and "b = REQUEST_STATE \<or> b = NONCE_IDTOKEN \<or> b = AUTHORITY"
  shows "indexOf (request_key E b i) i \<noteq> - 1"
proof -
  from temp_key_contains_id [OF assms, of i]
  obtain pre where "request_key E b i = pre @ i" unfolding request_key_def by blast
  then show ?thesis by (simp add: indexOf_append_suffix)
qed

lemma updateCacheEntries_storage:
  assumes "parseRequestState E s = Inr i"
  shows "fst (updateCacheEntries E st s n a) = None"
    and "browserStorage (snd (updateCacheEntries E st s n a)) =
           AList.update (request_key E AUTHORITY i) a
             (AList.update (request_key E NONCE_IDTOKEN i) n
               (AList.update (request_key E REQUEST_STATE i) s (browserStorage st)))"
  by (simp_all add: updateCacheEntries_def setAuthorityCache_def Let_def
      generate_keys_of_id [OF assms] browserStorage_setTemporaryCache browserStorage_setItem)

lemma begin_requests_snoc:
  "begin_requests E st (reqs @ [r]) =
     snd (updateCacheEntries E (begin_requests E st reqs) (fst r) (fst (snd r)) (snd (snd r)))"
  by (simp add: begin_requests_def)

lemma begin_requests_storage:
  assumes "\<forall>r \<in> set reqs. parseRequestState E (fst r) = Inr i"
    and "request_key E REQUEST_STATE i \<noteq> request_key E NONCE_IDTOKEN i"
    and "request_key E REQUEST_STATE i \<noteq> request_key E AUTHORITY i"
  defines "K \<equiv> {request_key E REQUEST_STATE i, request_key E NONCE_IDTOKEN i,
                 request_key E AUTHORITY i}"
  shows "fst ` set (browserStorage (begin_requests E st reqs)) \<subseteq>
           fst ` set (browserStorage st) \<union> K
       \<and> (\<forall>k. k \<notin> K \<longrightarrow> getItem (begin_requests E st reqs) k = getItem st k)
       \<and> (reqs \<noteq> [] \<longrightarrow>
            getItem (begin_requests E st reqs) (request_key E REQUEST_STATE i) =
              Some (fst (last reqs)))"
  using assms(1)
proof (induction reqs rule: rev_induct)
  case Nil
  show ?case by (simp add: begin_requests_def)
next
  case (snoc r reqs)
  from snoc.prems have p: "parseRequestState E (fst r) = Inr i"
    and rest: "\<forall>r \<in> set reqs. parseRequestState E (fst r) = Inr i" by simp_all
  note u = updateCacheEntries_storage(2) [OF p, of "begin_requests E st reqs"]
  note ih = snoc.IH [OF rest]
  have 1: "fst ` set (browserStorage (begin_requests E st (reqs @ [r]))) \<subseteq>
           fst ` set (browserStorage st) \<union> K"
    using ih by (auto simp: begin_requests_snoc u dom_update K_def)
  have 2: "\<forall>k. k \<notin> K \<longrightarrow> getItem (begin_requests E st (reqs @ [r])) k = getItem st k"
    using ih by (simp add: begin_requests_snoc getItem_map_of u update_conv' K_def)
  have 3: "getItem (begin_requests E st (reqs @ [r])) (request_key E REQUEST_STATE i) =
              Some (fst (last (reqs @ [r])))"
    using assms(2,3) by (simp add: begin_requests_snoc getItem_map_of u update_conv')
  from 1 2 3 show ?case by simp
qed

lemma browserStorage_reset_step:
  "browserStorage (reset_step E c st key) =
     filter (\<lambda>p. \<not> (fst p = key \<and> c \<noteq> [] \<and> indexOf (fst p) c \<noteq> - 1)) (browserStorage st)"
proof (cases "c \<noteq> [] \<and> indexOf key c \<noteq> - 1")
  case True
  then have "(\<lambda>p :: string \<times> string. \<not> (fst p = key \<and> c \<noteq> [] \<and> indexOf (fst p) c \<noteq> - 1)) =
     (\<lambda>p. fst p \<noteq> key)" by auto
  with True show ?thesis
    by (simp add: reset_step_def isEmpty_def browserStorage_removeItem delete_as_filter)
next
  case False
  then have "(\<lambda>p :: string \<times> string. \<not> (fst p = key \<and> c \<noteq> [] \<and> indexOf (fst p) c \<noteq> - 1)) =
     (\<lambda>p. True)" by auto
  with False show ?thesis
    by (auto simp: reset_step_def isEmpty_def)
qed

lemma browserStorage_reset_loop:
  "browserStorage (foldl (reset_step E c) st ks) =
     filter (\<lambda>p. \<not> (fst p \<in> set ks \<and> c \<noteq> [] \<and> indexOf (fst p) c \<noteq> - 1)) (browserStorage st)"
proof (induction ks arbitrary: st)
  case Nil
  then show ?case by simp
next
  case (Cons k ks)
  show ?case
    by (simp add: Cons.IH browserStorage_reset_step) (rule filter_cong, auto)
qed

lemma browserStorage_reset_sweep:
  "browserStorage (foldl (reset_step E c) st (getKeys st)) =
     filter (\<lambda>p. \<not> (c \<noteq> [] \<and> indexOf (fst p) c \<noteq> - 1)) (browserStorage st)"
  unfolding browserStorage_reset_loop getKeys_map_fst
  by (rule filter_cong) auto

lemma browserStorage_remove_generic_items:
  "browserStorage (remove_generic_items E st) =
     filter (\<lambda>p. fst p \<notin> set (generic_keys E)) (browserStorage st)"
  by (simp add: remove_generic_items_def Let_def browserStorage_removeItem delete_as_filter
      generic_keys_def)

lemma resetRequestCache_storage:
  assumes "c = [] \<or> parseRequestState E c = Inr i"
  shows "fst (resetRequestCache E st c) = None \<and>
         browserStorage (snd (resetRequestCache E st c)) =
           filter (\<lambda>p. fst p \<notin> set (generic_keys E) \<and>
                      (c \<noteq> [] \<longrightarrow>
                         fst p \<noteq> request_key E REQUEST_STATE i \<and>
                         fst p \<noteq> request_key E NONCE_IDTOKEN i \<and>
                         fst p \<noteq> request_key E AUTHORITY i \<and>
                         indexOf (fst p) c = - 1))
             (browserStorage st)"
proof (cases "c = []")
  case True
  then show ?thesis
    by (simp add: resetRequestCache_def Let_def browserStorage_remove_generic_items
        browserStorage_reset_sweep)
next
  case False
  with assms have p: "parseRequestState E c = Inr i" by simp
  from False show ?thesis
    by (simp add: resetRequestCache_def Let_def generate_keys_of_id [OF p]
        browserStorage_remove_generic_items browserStorage_removeItem delete_as_filter
        browserStorage_reset_sweep) (rule filter_cong, auto)
qed

lemma cleanRequestByState_reset:
  assumes "parseRequestState E s = Inr i" and "s \<noteq> []"
  shows "cleanRequestByState E st s =
     resetRequestCache E st
       (case getItem st (request_key E REQUEST_STATE i) of None \<Rightarrow> [] | Some c \<Rightarrow> c)"
  using assms by (simp add: cleanRequestByState_def generate_keys_of_id Let_def)

text \<open>
  Claim C6. Take any store in which no key contains the correlation id, any number of
  \<open>updateCacheEntries\<close> calls whose states carry that id, and then the cleanup
  (\<open>cleanRequestByState\<close>, or \<open>resetRequestCache\<close> directly) with a state that carries
  it. The cleanup throws nothing; afterwards no key of the store contains the id; the
  four fixed-name items (request params, origin uri, url hash, interaction status) are
  gone; and every other item whose key contains none of the state strings involved,
  the temporary entries of other correlation ids among them, is as it was.
\<close>

theorem cleanRequest_removes_request_entries:
  assumes "json_grammar E" and "CACHE_PREFIX E = ''msal''"
    and fresh: "\<forall>k \<in> set (getKeys st0). indexOf k i = - 1"
    and reqs: "\<forall>r \<in> set reqs. parseRequestState E (fst r) = Inr i \<and> fst r \<noteq> []"
    and s: "parseRequestState E s = Inr i" "s \<noteq> []"
    and res: "res = cleanRequestByState E (begin_requests E st0 reqs) s
            \<or> res = resetRequestCache E (begin_requests E st0 reqs) s"
  shows "fst res = None
       \<and> (\<forall>k \<in> set (getKeys (snd res)). indexOf k i = - 1)
       \<and> (\<forall>k \<in> set (generic_keys E). \<not> containsKey (snd res) k)
       \<and> (\<forall>k. k \<notin> set (generic_keys E) \<and> indexOf k s = - 1 \<and>
               (\<forall>r \<in> set reqs. indexOf k (fst r) = - 1) \<longrightarrow>
               getItem (snd res) k = getItem st0 k)"
proof -
  let ?ks = "request_key E REQUEST_STATE i"
  let ?kn = "request_key E NONCE_IDTOKEN i"
  let ?ka = "request_key E AUTHORITY i"
  let ?st1 = "begin_requests E st0 reqs"
  let ?b0 = "browserStorage st0"
  let ?b1 = "browserStorage ?st1"
  define Q where "Q c k \<longleftrightarrow> k \<notin> set (generic_keys E) \<and>
      (c \<noteq> [] \<longrightarrow> k \<noteq> ?ks \<and> k \<noteq> ?kn \<and> k \<noteq> ?ka \<and> indexOf k c = - 1)" for c k
  note inj = request_key_inj [OF assms(1,2)]
  have d: "?ks \<noteq> ?kn" "?ks \<noteq> ?ka"
    using inj [of REQUEST_STATE NONCE_IDTOKEN i i] inj [of REQUEST_STATE AUTHORITY i i]
      bases_distinct by blast+
  have has_id: "indexOf ?ks i \<noteq> - 1" "indexOf ?kn i \<noteq> - 1" "indexOf ?ka i \<noteq> - 1"
    by (rule request_key_contains_id [OF assms(1,2)]; simp)+
  have fresh': "\<And>k. indexOf k i \<noteq> - 1 \<Longrightarrow> k \<notin> fst ` set ?b0"
    using fresh by (auto simp: getKeys_map_fst)
  have absent0: "\<And>k. indexOf k i \<noteq> - 1 \<Longrightarrow> getItem st0 k = None"
    using fresh' by (simp add: getItem_map_of map_of_eq_None_iff)
  from reqs have reqs_id: "\<forall>r \<in> set reqs. parseRequestState E (fst r) = Inr i" by blast
  note B = begin_requests_storage [OF reqs_id d, of st0]
  from B have B1: "fst ` set ?b1 \<subseteq> fst ` set ?b0 \<union> {?ks, ?kn, ?ka}" by blast
  from B have B2: "\<And>k. k \<noteq> ?ks \<Longrightarrow> k \<noteq> ?kn \<Longrightarrow> k \<noteq> ?ka \<Longrightarrow> getItem ?st1 k = getItem st0 k"
    by simp
  from B have B3: "reqs \<noteq> [] \<Longrightarrow> getItem ?st1 ?ks = Some (fst (last reqs))" by blast
  have B4: "reqs = [] \<Longrightarrow> ?st1 = st0" by (simp add: begin_requests_def)
  have "\<exists>c. (c = [] \<or> parseRequestState E c = Inr i) \<and> res = resetRequestCache E ?st1 c
          \<and> (c = [] \<longrightarrow> reqs = []) \<and> (c \<noteq> [] \<longrightarrow> c = s \<or> c \<in> fst ` set reqs)"
    using res
  proof
    assume "res = resetRequestCache E ?st1 s"
    with s show ?thesis by blast
  next
    assume r: "res = cleanRequestByState E ?st1 s"
    show ?thesis
    proof (cases "reqs = []")
      case True
      with B4 have "getItem ?st1 ?ks = None" using absent0 [OF has_id(1)] by simp
      with r have "res = resetRequestCache E ?st1 []"
        by (simp add: cleanRequestByState_reset [OF s])
      with True show ?thesis by blast
    next
      case False
      let ?c = "fst (last reqs)"
      from False have l: "last reqs \<in> set reqs" by simp
      with reqs have "parseRequestState E ?c = Inr i" "?c \<noteq> []" by blast+
      moreover from B3 [OF False] r have "res = resetRequestCache E ?st1 ?c"
        by (simp add: cleanRequestByState_reset [OF s])
      moreover from l have "?c \<in> fst ` set reqs" by simp
      ultimately show ?thesis by blast
    qed
  qed
  then obtain c where c: "c = [] \<or> parseRequestState E c = Inr i"
    and r: "res = resetRequestCache E ?st1 c"
    and c_empty: "c = [] \<Longrightarrow> reqs = []"
    and c_from: "c \<noteq> [] \<Longrightarrow> c = s \<or> c \<in> fst ` set reqs" by blast
  from resetRequestCache_storage [OF c, of ?st1] r
  have ok: "fst res = None" and b2: "browserStorage (snd res) = filter (\<lambda>p. Q c (fst p)) ?b1"
    by (simp_all add: Q_def)
  have keys2: "fst ` set (browserStorage (snd res)) = {k \<in> fst ` set ?b1. Q c k}"
    unfolding b2 by (rule keys_filter_fst)
  have get2: "\<And>k. getItem (snd res) k = (if Q c k then getItem ?st1 k else None)"
    by (simp add: getItem_map_of b2 map_of_filter_fst)
  have 2: "\<forall>k \<in> set (getKeys (snd res)). indexOf k i = - 1"
  proof
    fix k assume "k \<in> set (getKeys (snd res))"
    with keys2 have k1: "k \<in> fst ` set ?b1" and q: "Q c k" by (auto simp: getKeys_map_fst)
    have "k \<in> fst ` set ?b0"
    proof (cases "c = []")
      case True
      with c_empty B4 k1 show ?thesis by simp
    next
      case False
      with q have "k \<noteq> ?ks" "k \<noteq> ?kn" "k \<noteq> ?ka" by (simp_all add: Q_def)
      with B1 k1 show ?thesis by blast
    qed
    with fresh' show "indexOf k i = - 1" by blast
  qed
  have 3: "\<forall>k \<in> set (generic_keys E). \<not> containsKey (snd res) k"
    using keys2 by (auto simp: containsKey_def storage_containsKey_def Q_def)
  have 4: "\<forall>k. k \<notin> set (generic_keys E) \<and> indexOf k s = - 1 \<and>
               (\<forall>r \<in> set reqs. indexOf k (fst r) = - 1) \<longrightarrow>
               getItem (snd res) k = getItem st0 k"
  proof (intro allI impI, elim conjE)
    fix k
    assume g: "k \<notin> set (generic_keys E)" and ns: "indexOf k s = - 1"
      and nr: "\<forall>r \<in> set reqs. indexOf k (fst r) = - 1"
    show "getItem (snd res) k = getItem st0 k"
    proof (cases "k = ?ks \<or> k = ?kn \<or> k = ?ka")
      case True
      with has_id have "indexOf k i \<noteq> - 1" by blast
      then have z: "getItem st0 k = None" by (rule absent0)
      show ?thesis
      proof (cases "c = []")
        case True
        with c_empty B4 z show ?thesis by (simp add: get2)
      next
        case False
        with True have "\<not> Q c k" by (auto simp: Q_def)
        with z show ?thesis by (simp add: get2)
      qed
    next
      case False
      then have same: "getItem ?st1 k = getItem st0 k" by (intro B2) simp_all
      have "c \<noteq> [] \<Longrightarrow> indexOf k c = - 1"
        using c_from ns nr by auto
      with False g have "Q c k" by (auto simp: Q_def)
      with same show ?thesis by (simp add: get2)
    qed
  qed
  from ok 2 3 4 show ?thesis by (intro conjI)
qed

lemma E0_generateCacheKey_plain:
  assumes "\<not> json_ws c" and "c \<noteq> CHR ''{''" and "c \<noteq> CHR ''[''"
    and "\<not> startsWith (c # cs) ''msal''" and "\<not> startsWith (c # cs) ''adal.idtoken''"
  shows "generateCacheKey E0 (c # cs) = ''msal.cid.'' @ c # cs"
proof -
  have "validateAndParseJson E0 (c # cs) = None"
    by (rule not_json_first_char [OF E0_json_grammar assms(1-3)])
  with assms(4,5) show ?thesis
    by (simp add: generateCacheKey_def E0_def)
qed

lemma E0_generic_keys:
  "generic_keys E0 = [''msal.cid.request.params'', ''msal.cid.request.origin'',
     ''msal.cid.urlHash'', ''msal.cid.interaction.status'']"
  by (simp add: generic_keys_def REQUEST_PARAMS_def ORIGIN_URI_def URL_HASH_def
      INTERACTION_STATUS_KEY_def E0_generateCacheKey_plain json_ws_def startsWith_def)

lemma E0_request_key: 
  assumes "b = REQUEST_STATE \<or> b = NONCE_IDTOKEN \<or> b = AUTHORITY"
  shows "request_key E0 b i = ''msal.cid.'' @ b @ ''.'' @ i"
  unfolding request_key_def by (rule E0_temp_key [OF assms])

lemma E0_parse_S1:
  "parseRequestState E0 ''S1'' = Inr ''id1''"
  "parseRequestState E0 ''S1|again'' = Inr ''id1''"
  by (simp_all add: E0_def state_table_def)

lemma E0_begin_requests0:
  "browserStorage (begin_requests E0 request_state0 requests0) =
     [(''msal.cid.request.state.id2'', ''S2''), (''msal.cid.nonce.id_token.id2'', ''N2''),
      (''msal.cid.authority.id2'', ''https://login.example.com/common/''),
      (''msal.cid.request.params'', ''e30=''), (''settings.theme'', ''dark''),
      (''msal.cid.request.state.id1'', ''S1|again''), (''msal.cid.nonce.id_token.id1'', ''N1b''),
      (''msal.cid.authority.id1'', ''https://login.example.com/common/'')]"
  by (simp add: begin_requests_def requests0_def updateCacheEntries_storage(2) E0_parse_S1
      E0_request_key)
    (simp add: REQUEST_STATE_def NONCE_IDTOKEN_def AUTHORITY_def request_state0_def)

theorem cleanRequest_removes_request_entries_witness:
  "json_grammar E0 \<and> CACHE_PREFIX E0 = ''msal''
   \<and> list_all (\<lambda>k. indexOf k ''id1'' = - 1) (getKeys request_state0)
   \<and> list_all (\<lambda>r. parseRequestState E0 (fst r) = Inr ''id1'' \<and> fst r \<noteq> []) requests0
   \<and> parseRequestState E0 ''S1'' = Inr ''id1''
   \<and> getKeys (begin_requests E0 request_state0 requests0) =
       [''msal.cid.request.state.id2'', ''msal.cid.nonce.id_token.id2'',
        ''msal.cid.authority.id2'', ''msal.cid.request.params'', ''settings.theme'',
        ''msal.cid.request.state.id1'', ''msal.cid.nonce.id_token.id1'',
        ''msal.cid.authority.id1'']
   \<and> fst (cleanRequestByState E0 (begin_requests E0 request_state0 requests0) ''S1'') = None
   \<and> list_all (\<lambda>k. indexOf k ''id1'' = - 1)
        (getKeys (snd (cleanRequestByState E0 (begin_requests E0 request_state0 requests0) ''S1'')))
   \<and> \<not> containsKey
          (snd (cleanRequestByState E0 (begin_requests E0 request_state0 requests0) ''S1''))
          ''msal.cid.request.params''
   \<and> getItem (snd (cleanRequestByState E0 (begin_requests E0 request_state0 requests0) ''S1''))
        ''msal.cid.nonce.id_token.id2'' = Some ''N2''"
proof -
  let ?res = "cleanRequestByState E0 (begin_requests E0 request_state0 requests0) ''S1''"
  have h2: "CACHE_PREFIX E0 = ''msal''" by (simp add: E0_def)
  have f: "list_all (\<lambda>k. indexOf k ''id1'' = - 1) (getKeys request_state0)"
    by (simp add: getKeys_map_fst request_state0_def)
  have q: "list_all (\<lambda>r. parseRequestState E0 (fst r) = Inr ''id1'' \<and> fst r \<noteq> []) requests0"
    by (simp add: requests0_def E0_parse_S1)
  have k1: "getKeys (begin_requests E0 request_state0 requests0) =
       [''msal.cid.request.state.id2'', ''msal.cid.nonce.id_token.id2'',
        ''msal.cid.authority.id2'', ''msal.cid.request.params'', ''settings.theme'',
        ''msal.cid.request.state.id1'', ''msal.cid.nonce.id_token.id1'',
        ''msal.cid.authority.id1'']"
    by (simp add: getKeys_map_fst E0_begin_requests0)
  have ne: "''S1'' \<noteq> []" by simp
  note t = cleanRequest_removes_request_entries
    [OF E0_json_grammar h2 f [unfolded list_all_iff] q [unfolded list_all_iff]
        E0_parse_S1(1) ne disjI1 [OF refl]]
  from t have r1: "fst ?res = None" by (rule conjunct1)
  from t have "\<forall>k \<in> set (getKeys (snd ?res)). indexOf k ''id1'' = - 1" by blast
  then have r2: "list_all (\<lambda>k. indexOf k ''id1'' = - 1) (getKeys (snd ?res))"
    by (simp add: list_all_iff)
  from t have "\<forall>k \<in> set (generic_keys E0). \<not> containsKey (snd ?res) k" by blast
  then have r3: "\<not> containsKey (snd ?res) ''msal.cid.request.params''"
    by (simp add: E0_generic_keys)
  from t have "\<forall>k. k \<notin> set (generic_keys E0) \<and> indexOf k ''S1'' = - 1 \<and>
               (\<forall>r \<in> set requests0. indexOf k (fst r) = - 1) \<longrightarrow>
               getItem (snd ?res) k = getItem request_state0 k" by blast
  then have "''msal.cid.nonce.id_token.id2'' \<notin> set (generic_keys E0) \<and>
               indexOf ''msal.cid.nonce.id_token.id2'' ''S1'' = - 1 \<and>
               (\<forall>r \<in> set requests0. indexOf ''msal.cid.nonce.id_token.id2'' (fst r) = - 1) \<longrightarrow>
               getItem (snd ?res) ''msal.cid.nonce.id_token.id2'' =
               getItem request_state0 ''msal.cid.nonce.id_token.id2''" by (rule spec)
  moreover have "''msal.cid.nonce.id_token.id2'' \<notin> set (generic_keys E0)"
    by (simp add: E0_generic_keys)
  moreover have "indexOf ''msal.cid.nonce.id_token.id2'' ''S1'' = - 1" by simp
  moreover have "\<forall>r \<in> set requests0. indexOf ''msal.cid.nonce.id_token.id2'' (fst r) = - 1"
    by (simp add: requests0_def)
  moreover have "getItem request_state0 ''msal.cid.nonce.id_token.id2'' = Some ''N2''"
    by (simp add: getItem_map_of request_state0_def)
  ultimately have r4: "getItem (snd ?res) ''msal.cid.nonce.id_token.id2'' = Some ''N2''"
    by simp
  from E0_json_grammar h2 f q E0_parse_S1(1) k1 r1 r2 r3 r4 show ?thesis by (intro conjI)
qed

section \<open>Authority: trust validation and endpoints\<close>

text \<open>
  Claim C2. When the host of the authority is not in the trust registry, after the lazy
  refresh of the trusted-host list that is made when, and only when, the registry is
  empty, \<open>resolveEndpointsAsync\<close> fails with the untrusted-authority error, and no
  request for the OpenID configuration document is made: the only request added to the
  log is the one refresh, if the registry was empty.
\<close>

theorem untrusted_authority_fails:
  assumes "W1 = (if length (getTrustedHostList W) = 0
                 then setTrustedAuthoritiesFromNetwork N (canonicalAuthority A) W else W)"
    and "\<not> IsInTrustedHostList W1 (HostNameAndPort (canonicalAuthorityUrlComponents N A))"
  shows "resolveEndpointsAsync N A W = (Some UntrustedAuthorityError, A, W1)
       \<and> filter is_OpenIdConfigRequest (network_log W1) =
           filter is_OpenIdConfigRequest (network_log W)
       \<and> network_log W1 = network_log W @
           (if getTrustedHostList W = [] then [TrustedHostsRequest (canonicalAuthority A)]
            else [])"
proof -
  have "validateAndSetPreferredNetwork N A W = (Some UntrustedAuthorityError, A, W1)"
    using assms by (simp add: validateAndSetPreferredNetwork_def Let_def)
  then have 1: "resolveEndpointsAsync N A W = (Some UntrustedAuthorityError, A, W1)"
    by (simp add: resolveEndpointsAsync_def)
  have 3: "network_log W1 = network_log W @
           (if getTrustedHostList W = [] then [TrustedHostsRequest (canonicalAuthority A)]
            else [])"
    using assms(1) by (simp add: setTrustedAuthoritiesFromNetwork_def)
  then have 2: "filter is_OpenIdConfigRequest (network_log W1) =
           filter is_OpenIdConfigRequest (network_log W)"
    by (simp add: is_OpenIdConfigRequest_def)
  from 1 2 3 show ?thesis by (intro conjI)
qed

theorem untrusted_authority_fails_witness:
  "\<not> IsInTrustedHostList (setTrustedAuthoritiesFromNetwork N0 (canonicalAuthority untrusted0) world0)
        (HostNameAndPort (canonicalAuthorityUrlComponents N0 untrusted0))
   \<and> resolveEndpointsAsync N0 untrusted0 world0 =
       (Some UntrustedAuthorityError, untrusted0,
        \<lparr>TrustedHostList = registry0,
         network_log = [TrustedHostsRequest ''https://login.untrusted.example/common/'']\<rparr>)
   \<and> \<not> IsInTrustedHostList trusted_world
        (HostNameAndPort (canonicalAuthorityUrlComponents N0 untrusted0))
   \<and> resolveEndpointsAsync N0 untrusted0 trusted_world =
       (Some UntrustedAuthorityError, untrusted0, trusted_world)"
proof -
  let ?W1 = "setTrustedAuthoritiesFromNetwork N0 (canonicalAuthority untrusted0) world0"
  have host: "HostNameAndPort (canonicalAuthorityUrlComponents N0 untrusted0) =
      ''login.untrusted.example''"
    by (simp add: canonicalAuthorityUrlComponents_def N0_def untrusted0_def url_table_def)
  have w1: "?W1 = \<lparr>TrustedHostList = registry0,
         network_log = [TrustedHostsRequest ''https://login.untrusted.example/common/'']\<rparr>"
    by (simp add: setTrustedAuthoritiesFromNetwork_def N0_def untrusted0_def world0_def)
  have e1: "?W1 = (if length (getTrustedHostList world0) = 0
                 then setTrustedAuthoritiesFromNetwork N0 (canonicalAuthority untrusted0) world0
                 else world0)"
    by (simp add: getTrustedHostList_def world0_def)
  have u1: "\<not> IsInTrustedHostList ?W1
      (HostNameAndPort (canonicalAuthorityUrlComponents N0 untrusted0))"
    unfolding host w1 by (simp add: IsInTrustedHostList_def registry0_def)
  have e2: "trusted_world = (if length (getTrustedHostList trusted_world) = 0
                 then setTrustedAuthoritiesFromNetwork N0 (canonicalAuthority untrusted0)
                        trusted_world
                 else trusted_world)"
    by (simp add: getTrustedHostList_def trusted_world_def registry0_def)
  have u2: "\<not> IsInTrustedHostList trusted_world
      (HostNameAndPort (canonicalAuthorityUrlComponents N0 untrusted0))"
    unfolding host by (simp add: IsInTrustedHostList_def trusted_world_def registry0_def)
  from untrusted_authority_fails [OF e1 u1]
  have "resolveEndpointsAsync N0 untrusted0 world0 = (Some UntrustedAuthorityError, untrusted0, ?W1)"
    by (rule conjunct1)
  then have r1: "resolveEndpointsAsync N0 untrusted0 world0 =
       (Some UntrustedAuthorityError, untrusted0,
        \<lparr>TrustedHostList = registry0,
         network_log = [TrustedHostsRequest ''https://login.untrusted.example/common/'']\<rparr>)"
    by (simp only: w1)
  from untrusted_authority_fails [OF e2 u2]
  have r2: "resolveEndpointsAsync N0 untrusted0 trusted_world =
       (Some UntrustedAuthorityError, untrusted0, trusted_world)"
    by (rule conjunct1)
  from u1 r1 u2 r2 show ?thesis by (intro conjI)
qed

lemma accessors_before_discovery:
  assumes "\<not> discoveryComplete A"
  shows "authorizationEndpoint N A = Inl EndpointDiscoveryIncompleteError"
    and "tokenEndpoint N A = Inl EndpointDiscoveryIncompleteError"
    and "deviceCodeEndpoint N A = Inl EndpointDiscoveryIncompleteError"
    and "endSessionEndpoint N A = Inl EndpointDiscoveryIncompleteError"
    and "selfSignedJwtAudience N A = Inl EndpointDiscoveryIncompleteError"
  using assms
  by (simp_all add: discoveryComplete_def authorizationEndpoint_def tokenEndpoint_def
      deviceCodeEndpoint_def endSessionEndpoint_def selfSignedJwtAudience_def)

lemma endpoints_after_resolve:
  assumes "resolveEndpointsAsync N A W = (None, A', W')"
  shows "\<exists>r. tenantDiscoveryResponse A' = Some r
         \<and> authorizationEndpoint N A' = Inr (replaceTenant N A' (authorization_endpoint r))
         \<and> tokenEndpoint N A' = Inr (replaceTenant N A' (token_endpoint r))
         \<and> endSessionEndpoint N A' = Inr (replaceTenant N A' (end_session_endpoint r))
         \<and> selfSignedJwtAudience N A' = Inr (replaceTenant N A' (issuer r))
         \<and> deviceCodeEndpoint N A' =
             Inr (replace_first (token_endpoint r) ''/token'' ''/devicecode'')"
proof -
  from assms obtain r where "tenantDiscoveryResponse A' = Some r"
    by (auto simp: resolveEndpointsAsync_def Let_def discoverEndpoints_def
        split: prod.splits option.splits sum.splits)
  then show ?thesis
    by (simp add: authorizationEndpoint_def tokenEndpoint_def deviceCodeEndpoint_def
        endSessionEndpoint_def selfSignedJwtAudience_def)
qed

text \<open>
  A tenant segment is a replacement string: a dollar pattern in it is read as
  \<^verbatim>\<open>String.prototype.replace\<close> reads it.
\<close>

lemma replace_placeholders_patterns:
  "replace_placeholders ''https://h/{tenant}/v2.0/{tenantid}'' ''common'' =
     ''https://h/common/v2.0/common''"
  "replace_placeholders ''https://h/{tenant}/token'' ''$&'' = ''https://h/{tenant}/token''"
  "replace_placeholders ''https://h/{tenant}/token'' ''a$$b'' = ''https://h/a$b/token''"
  "replace_placeholders ''h/{tenant}/t'' [CHR ''$'', CHR 0x60] = ''h/h//t''"
  "replace_placeholders ''h/{tenant}/t'' [CHR ''$'', CHR 0x27] = ''h//t/t''"
  "replace_placeholders ''h/{tenant}/t'' ''$1'' = ''h/$1/t''"
  "replace_first ''https://h/{tenant}/token'' ''/token'' ''/devicecode'' =
     ''https://h/{tenant}/devicecode''"
  by (simp_all add: replace_placeholders_def replace_first_def)

lemma resolved0:
  "resolveEndpointsAsync N0 authority0 world0 =
     (None,
      authority0\<lparr>tenantDiscoveryResponse := map_of openid_table
        ''https://login.microsoftonline.com/common/v2.0/.well-known/openid-configuration''\<rparr>,
      \<lparr>TrustedHostList = registry0,
       network_log = [TrustedHostsRequest ''https://login.microsoftonline.com/common/'',
         OpenIdConfigRequest
           ''https://login.microsoftonline.com/common/v2.0/.well-known/openid-configuration'']\<rparr>)"
  by (simp add: resolveEndpointsAsync_def validateAndSetPreferredNetwork_def Let_def
      canonicalAuthorityUrlComponents_def getTrustedHostList_def IsInTrustedHostList_def
      getCloudDiscoveryMetadata_def setTrustedAuthoritiesFromNetwork_def
      defaultOpenIdConfigurationEndpoint_def authorityType_def protocolMode_def
      discoverEndpoints_def toLowerCase_def
      N0_def authority0_def world0_def url_table_def registry0_def openid_table_def)

text \<open>
  Claim C3 holds for four of the five accessors and fails for \<open>deviceCodeEndpoint\<close>,
  which does not call \<open>replaceTenant\<close>: after a successful \<open>resolveEndpointsAsync\<close>
  of the authority \<open>https://login.microsoftonline.com/common/\<close>, whose discovery
  document gives the token endpoint with the \<open>{tenant}\<close> placeholder,
  \<open>tokenEndpoint\<close> returns the url with the tenant \<open>common\<close> and
  \<open>deviceCodeEndpoint\<close> returns a url that still holds the placeholder.
\<close>

theorem deviceCodeEndpoint_keeps_placeholder:
  "fst (resolveEndpointsAsync N0 authority0 world0) = None
   \<and> tenant N0 (fst (snd (resolveEndpointsAsync N0 authority0 world0))) = Some ''common''
   \<and> tokenEndpoint N0 (fst (snd (resolveEndpointsAsync N0 authority0 world0))) =
       Inr ''https://login.microsoftonline.com/common/oauth2/v2.0/token''
   \<and> deviceCodeEndpoint N0 (fst (snd (resolveEndpointsAsync N0 authority0 world0))) =
       Inr ''https://login.microsoftonline.com/{tenant}/oauth2/v2.0/devicecode''"
  unfolding resolved0
  by (simp add: tenant_def tokenEndpoint_def deviceCodeEndpoint_def replaceTenant_def
      replace_placeholders_def replace_first_def
      canonicalAuthorityUrlComponents_def N0_def authority0_def url_table_def openid_table_def)

end
